theory Spec2Isabelle
  imports Main "HOL-Library.Word" "HOL-Library.Signed_Division"
begin

unbundle bit_operations_syntax

section \<open>The video renderer of the main window\<close>

text \<open>
  \<^verbatim>\<open>default_main_window.cpp\<close> keeps, per renderer, a \<^verbatim>\<open>BITMAPINFO\<close> (member \<open>bmi\<close>) and a
  \<^verbatim>\<open>std::unique_ptr<uint8_t[]>\<close> (member \<open>image\<close>); the names of members are written
  without the underscore that ends them in the source. The C types are modelled at their widths:
  \<^verbatim>\<open>int\<close> and \<^verbatim>\<open>LONG\<close> are 32-bit two's complement words (read with \<open>sint\<close>),
  \<^verbatim>\<open>DWORD\<close> is a 32-bit word read with \<open>unat\<close>, \<^verbatim>\<open>WORD\<close> is a 16-bit word.
  Arithmetic on them wraps, which is what the compiled multiplication
  \<^verbatim>\<open>width * height * (biBitCount >> 3)\<close> does before it is stored in the \<^verbatim>\<open>DWORD\<close>.
\<close>

type_synonym c_int = "32 word"
type_synonym LONG = "32 word"
type_synonym DWORD = "32 word"
type_synonym WORD = "16 word"
type_synonym uint8_t = "8 word"

record BITMAPINFOHEADER =
  biSize :: DWORD
  biWidth :: LONG
  biHeight :: LONG
  biPlanes :: WORD
  biBitCount :: WORD
  biCompression :: DWORD
  biSizeImage :: DWORD

datatype VideoRotation =
  kVideoRotation_0 | kVideoRotation_90 | kVideoRotation_180 | kVideoRotation_270

text \<open>
  A \<^verbatim>\<open>webrtc::VideoFrameBuffer\<close> in I420 layout: its dimensions and its three planes.
  The planes are opaque (type \<open>'p\<close>): the window never looks into them, it hands them
  to the library routines below.
\<close>

record 'p VideoFrameBuffer =
  width :: c_int
  height :: c_int
  planes :: 'p

record 'p VideoFrame =
  video_frame_buffer :: "'p VideoFrameBuffer"
  rotation :: VideoRotation

text \<open>
  The renderer. The critical section that \<^verbatim>\<open>AutoLock\<close> enters and leaves is not part
  of the model: the functions run one at a time. \<open>image = None\<close> is the null \<^verbatim>\<open>unique_ptr\<close>; \<open>Some bs\<close> is an
  array of \<open>length bs\<close> bytes. Two counters record the effects the source has on its
  environment: \<open>allocations\<close> counts the executions of \<^verbatim>\<open>new uint8_t[...]\<close> and
  \<open>invalidations\<close> the calls of \<^verbatim>\<open>InvalidateRect\<close>.
\<close>

record VideoRenderer =
  bmi :: BITMAPINFOHEADER
  image :: "uint8_t list option"
  allocations :: nat
  invalidations :: nat

datatype fault = DCheckFailed | NullDereference

text \<open>\<^verbatim>\<open>new uint8_t[n]\<close>: \<open>n\<close> bytes; their indeterminate content is taken as zero.\<close>

definition new_uint8_t :: "nat \<Rightarrow> uint8_t list" where
  "new_uint8_t n = replicate n 0"

text \<open>
  The constructor \<^verbatim>\<open>VideoRenderer(wnd, width, height, track)\<close>: it zeroes \<^verbatim>\<open>bmi\<close>, fills
  the header in and allocates nothing. \<^verbatim>\<open>sizeof(BITMAPINFOHEADER)\<close> is 40 and \<^verbatim>\<open>BI_RGB\<close> is 0.
\<close>

definition VideoRenderer_new :: "c_int \<Rightarrow> c_int \<Rightarrow> VideoRenderer" where
  "VideoRenderer_new w h =
     \<lparr> bmi = \<lparr> biSize = 40, biWidth = w, biHeight = - h, biPlanes = 1, biBitCount = 32,
                biCompression = 0,
                biSizeImage = w * h * drop_bit 3 (ucast (32 :: WORD)) \<rparr>,
       image = None, allocations = 0, invalidations = 0 \<rparr>"

text \<open>
  \<^verbatim>\<open>StartLocalRenderer\<close> and \<^verbatim>\<open>StartRemoteRenderer\<close> both construct the renderer
  with width 1 and height 1.
\<close>

definition StartRenderer :: VideoRenderer where
  "StartRenderer = VideoRenderer_new 1 1"

text \<open>
  \<^verbatim>\<open>SetSize(width, height)\<close>. The early return compares the new height with
  \<^verbatim>\<open>biHeight\<close>, which holds the negated height.
\<close>

definition SetSize :: "c_int \<Rightarrow> c_int \<Rightarrow> VideoRenderer \<Rightarrow> VideoRenderer" where
  "SetSize w h r =
     (if w = biWidth (bmi r) \<and> h = biHeight (bmi r) then r
      else
        let b = (bmi r) \<lparr> biWidth := w, biHeight := - h \<rparr>;
            b = b \<lparr> biSizeImage := w * h * drop_bit 3 (ucast (biBitCount b)) \<rparr>
        in r \<lparr> bmi := b,
               image := Some (new_uint8_t (unat (biSizeImage b))),
               allocations := Suc (allocations r) \<rparr>)"

text \<open>
  \<^verbatim>\<open>webrtc::I420Buffer::Rotate(src, rotation)\<close> is library code: it creates a buffer whose
  width and height are those of \<open>src\<close>, swapped for 90 and 270 degrees, and fills it with
  the rotated planes. The movement of the samples is the parameter \<open>rot\<close>.
\<close>

definition Rotate ::
  "(VideoRotation \<Rightarrow> 'p \<Rightarrow> 'p) \<Rightarrow> 'p VideoFrameBuffer \<Rightarrow> VideoRotation \<Rightarrow> 'p VideoFrameBuffer" where
  "Rotate rot src r =
     (if r = kVideoRotation_90 \<or> r = kVideoRotation_270
      then \<lparr> width = height src, height = width src, planes = rot r (planes src) \<rparr>
      else \<lparr> width = width src, height = height src, planes = rot r (planes src) \<rparr>)"

text \<open>
  \<^verbatim>\<open>libyuv::I420ToARGB(..., dst, dst_stride, width, height)\<close> is library code: it does
  nothing when \<open>width \<le> 0\<close> or \<open>height = 0\<close>; otherwise it writes, for each row \<open>y\<close> and
  column \<open>x\<close>, the four bytes of the pixel (little endian) at offset
  \<open>y * dst_stride + 4 * x\<close>, bottom-up when the height is negative. The colour of a
  pixel is the parameter \<open>px\<close>. A store outside the array is undefined in C; here it
  leaves the array as it is.
\<close>

definition store_argb :: "uint8_t list \<Rightarrow> int \<Rightarrow> 32 word \<Rightarrow> uint8_t list" where
  "store_argb dst off v =
     (if off < 0 then dst
      else fold (\<lambda>k d. d[nat off + k := ucast (drop_bit (8 * k) v)]) [0, 1, 2, 3] dst)"

definition I420ToARGB ::
  "('p \<Rightarrow> nat \<Rightarrow> nat \<Rightarrow> 32 word) \<Rightarrow> 'p \<Rightarrow> uint8_t list \<Rightarrow> int \<Rightarrow> int \<Rightarrow> int \<Rightarrow> uint8_t list" where
  "I420ToARGB px src dst dst_stride w h =
     (if w \<le> 0 \<or> h = 0 then dst
      else
        fold (\<lambda>y d.
            fold (\<lambda>x d'.
                store_argb d'
                  ((if h < 0 then \<bar>h\<bar> - 1 - int y else int y) * dst_stride + 4 * int x)
                  (px src x y))
              [0 ..< nat w] d)
          [0 ..< nat \<bar>h\<bar>] dst)"

text \<open>
  \<^verbatim>\<open>OnFrame(video_frame)\<close>: rotate if the frame declares a rotation, resize, check
  \<^verbatim>\<open>image\<close> (\<^verbatim>\<open>RTC_DCHECK\<close>; without the check the conversion would write through the
  null pointer), convert into \<^verbatim>\<open>image\<close> with stride \<^verbatim>\<open>biWidth * biBitCount / 8\<close>,
  invalidate the window.
\<close>

definition OnFrame ::
  "(VideoRotation \<Rightarrow> 'p \<Rightarrow> 'p) \<Rightarrow> ('p \<Rightarrow> nat \<Rightarrow> nat \<Rightarrow> 32 word) \<Rightarrow>
     'p VideoFrame \<Rightarrow> VideoRenderer \<Rightarrow> fault + VideoRenderer" where
  "OnFrame rot px video_frame r =
     (let buffer = video_frame_buffer video_frame;
          buffer = (if rotation video_frame \<noteq> kVideoRotation_0
                    then Rotate rot buffer (rotation video_frame) else buffer);
          r = SetSize (width buffer) (height buffer) r
      in case image r of
           None \<Rightarrow> Inl DCheckFailed
         | Some img \<Rightarrow>
             Inr (r \<lparr> image :=
                        Some (I420ToARGB px (planes buffer) img
                                (sint (biWidth (bmi r) * ucast (biBitCount (bmi r))) sdiv 8)
                                (sint (width buffer)) (sint (height buffer))),
                      invalidations := Suc (invalidations r) \<rparr>))"

text \<open>A sequence of frames delivered one after the other; a fault ends the delivery.\<close>

fun OnFrames ::
  "(VideoRotation \<Rightarrow> 'p \<Rightarrow> 'p) \<Rightarrow> ('p \<Rightarrow> nat \<Rightarrow> nat \<Rightarrow> 32 word) \<Rightarrow>
     'p VideoFrame list \<Rightarrow> VideoRenderer \<Rightarrow> fault + VideoRenderer" where
  "OnFrames rot px [] r = Inr r"
| "OnFrames rot px (f # fs) r =
     (case OnFrame rot px f r of Inl e \<Rightarrow> Inl e | Inr r' \<Rightarrow> OnFrames rot px fs r')"

text \<open>The buffer the renderer converts: the frame's own, or its rotation.\<close>

definition upright :: "(VideoRotation \<Rightarrow> 'p \<Rightarrow> 'p) \<Rightarrow> 'p VideoFrame \<Rightarrow> 'p VideoFrameBuffer" where
  "upright rot f =
     (if rotation f \<noteq> kVideoRotation_0
      then Rotate rot (video_frame_buffer f) (rotation f) else video_frame_buffer f)"

text \<open>Frames as the video source delivers them: neither dimension is negative.\<close>

definition frame_ok :: "'p VideoFrame \<Rightarrow> bool" where
  "frame_ok f \<longleftrightarrow>
     0 \<le> sint (width (video_frame_buffer f)) \<and> 0 \<le> sint (height (video_frame_buffer f))"


text \<open>
  What holds of a renderer between two calls: 32 bits per pixel, a stored height that is
  the negation of a non-negative one, a declared size computed from the stored
  dimensions, and a buffer, once there is one, of the declared size. Before the first
  frame there is no buffer and the stored height is \<open>-1\<close>.
\<close>

definition renderer_inv :: "VideoRenderer \<Rightarrow> bool" where
  "renderer_inv r \<longleftrightarrow>
     biBitCount (bmi r) = 32 \<and>
     sint (biHeight (bmi r)) \<le> 0 \<and>
     biSizeImage (bmi r) = biWidth (bmi r) * (- biHeight (bmi r)) * 4 \<and>
     (case image r of
        None \<Rightarrow> sint (biHeight (bmi r)) < 0
      | Some img \<Rightarrow> length img = unat (biSizeImage (bmi r)))"

text \<open>
  For examples: a frame of the given dimensions and rotation with no sample data, a
  rotation that has no samples to move, and a conversion that makes every pixel black.
\<close>

definition keep_planes :: "VideoRotation \<Rightarrow> unit \<Rightarrow> unit" where
  "keep_planes r p = p"

definition black :: "unit \<Rightarrow> nat \<Rightarrow> nat \<Rightarrow> 32 word" where
  "black p x y = 0"

text \<open>
  For examples with samples that can be told apart: the planes are a number, a rotation
  makes the next number of it, and the colour of a pixel is made of the number of the
  planes and the position of the pixel.
\<close>

definition numbered_frame :: "c_int \<Rightarrow> c_int \<Rightarrow> VideoRotation \<Rightarrow> nat \<Rightarrow> nat VideoFrame" where
  "numbered_frame w h r p =
     \<lparr> video_frame_buffer = \<lparr> width = w, height = h, planes = p \<rparr>, rotation = r \<rparr>"

definition next_planes :: "VideoRotation \<Rightarrow> nat \<Rightarrow> nat" where
  "next_planes r p = Suc p"

definition shade :: "nat \<Rightarrow> nat \<Rightarrow> nat \<Rightarrow> 32 word" where
  "shade p x y = word_of_nat (100 * p + 10 * y + x)"


definition frame2 :: "c_int \<Rightarrow> c_int \<Rightarrow> VideoRotation \<Rightarrow> unit VideoFrame" where
  "frame2 w h r = \<lparr> video_frame_buffer = \<lparr> width = w, height = h, planes = () \<rparr>, rotation = r \<rparr>"


section \<open>The main window\<close>

text \<open>
  Window handles, message numbers and the \<^verbatim>\<open>WPARAM\<close>, \<^verbatim>\<open>LPARAM\<close> and \<^verbatim>\<open>LRESULT\<close>
  values of the window are integers; the values that occur (handles, list indices, peer
  identifiers, \<open>-1\<close>) are far inside the range of the pointer-sized C types. The null
  handle is 0. The constants are those of the Windows headers;
  \<^verbatim>\<open>UI_THREAD_CALLBACK\<close> is \<^verbatim>\<open>WM_APP + 1\<close> and \<^verbatim>\<open>LISTBOX_ID\<close> the fifth child window
  identifier, as the header of the class declares them.
\<close>

type_synonym HWND = int
type_synonym UINT = int
type_synonym WPARAM = int
type_synonym LPARAM = int
type_synonym LRESULT = int

definition WM_CREATE :: UINT where "WM_CREATE = 1"
definition WM_SIZE :: UINT where "WM_SIZE = 5"
definition WM_SETFOCUS :: UINT where "WM_SETFOCUS = 7"
definition WM_PAINT :: UINT where "WM_PAINT = 15"
definition WM_CLOSE :: UINT where "WM_CLOSE = 16"
definition WM_ERASEBKGND :: UINT where "WM_ERASEBKGND = 20"
definition WM_NCDESTROY :: UINT where "WM_NCDESTROY = 130"
definition WM_CHAR :: UINT where "WM_CHAR = 258"
definition WM_COMMAND :: UINT where "WM_COMMAND = 273"
definition WM_CTLCOLORSTATIC :: UINT where "WM_CTLCOLORSTATIC = 312"
definition WM_APP :: UINT where "WM_APP = 32768"
definition UI_THREAD_CALLBACK :: UINT where "UI_THREAD_CALLBACK = WM_APP + 1"

definition VK_TAB :: WPARAM where "VK_TAB = 9"
definition VK_RETURN :: WPARAM where "VK_RETURN = 13"
definition VK_ESCAPE :: WPARAM where "VK_ESCAPE = 27"

definition BN_CLICKED :: int where "BN_CLICKED = 0"
definition LBN_DBLCLK :: int where "LBN_DBLCLK = 2"
definition LB_ERR :: LRESULT where "LB_ERR = - 1"
definition LISTBOX_ID :: int where "LISTBOX_ID = 5"

definition HIWORD :: "int \<Rightarrow> int" where
  "HIWORD x = (x div 65536) mod 65536"

definition MAKEWPARAM :: "int \<Rightarrow> int \<Rightarrow> WPARAM" where
  "MAKEWPARAM l h = l mod 65536 + (h mod 65536) * 65536"

record MSG =
  hwnd :: HWND
  message :: UINT
  wParam :: WPARAM
  lParam :: LPARAM

datatype UI = CONNECT_TO_SERVER | LIST_PEERS | STREAMING

text \<open>
  What the window does to its surroundings, in the order it does it: the calls on the
  registered \<^verbatim>\<open>MainWindowCallback\<close>, the messages it posts, the message box, the
  painting. \<open>Routed m\<close> marks the entry of message \<open>m\<close> into the message router of an
  attached window; it is there to speak about the order of events.
\<close>

datatype event =
    StartLogin string int
  | ConnectToPeer int
  | DisconnectFromServer
  | DisconnectFromCurrentPeer
  | Close
  | UIThreadCallback int int
  | PostMessage MSG
  | PostQuitMessage int
  | MessageBoxA string string
  | Paint
  | Routed UINT

text \<open>
  A list box without \<^verbatim>\<open>LBS_SORT\<close> (the window creates it with
  \<^verbatim>\<open>LBS_HASSTRINGS | LBS_NOTIFY\<close>): its entries in order, each a string with its item data,
  and the selected index, \<open>-1\<close> when nothing is selected. The messages are modelled as
  the control documents them.
\<close>

record ListBox =
  entries :: "(string \<times> LPARAM) list"
  cursel :: LRESULT

definition LB_RESETCONTENT :: "ListBox \<Rightarrow> ListBox" where
  "LB_RESETCONTENT lb = \<lparr> entries = [], cursel = - 1 \<rparr>"

definition LB_ADDSTRING :: "string \<Rightarrow> ListBox \<Rightarrow> LRESULT \<times> ListBox" where
  "LB_ADDSTRING str lb = (int (length (entries lb)), lb \<lparr> entries := entries lb @ [(str, 0)] \<rparr>)"

definition LB_SETITEMDATA :: "WPARAM \<Rightarrow> LPARAM \<Rightarrow> ListBox \<Rightarrow> ListBox" where
  "LB_SETITEMDATA index item_data lb =
     (if index = - 1 then lb \<lparr> entries := map (\<lambda>(str, d). (str, item_data)) (entries lb) \<rparr>
      else if 0 \<le> index \<and> index < int (length (entries lb))
      then lb \<lparr> entries := (entries lb)[nat index := (fst (entries lb ! nat index), item_data)] \<rparr>
      else lb)"

definition LB_GETCOUNT :: "ListBox \<Rightarrow> LRESULT" where
  "LB_GETCOUNT lb = int (length (entries lb))"

definition LB_SETCURSEL :: "WPARAM \<Rightarrow> ListBox \<Rightarrow> LRESULT \<times> ListBox" where
  "LB_SETCURSEL index lb =
     (if 0 \<le> index \<and> index < int (length (entries lb)) then (index, lb \<lparr> cursel := index \<rparr>)
      else (LB_ERR, lb \<lparr> cursel := - 1 \<rparr>))"

definition LB_GETCURSEL :: "ListBox \<Rightarrow> LRESULT" where
  "LB_GETCURSEL lb = cursel lb"

definition LB_GETITEMDATA :: "WPARAM \<Rightarrow> ListBox \<Rightarrow> LRESULT" where
  "LB_GETITEMDATA index lb =
     (if 0 \<le> index \<and> index < int (length (entries lb)) then snd (entries lb ! nat index)
      else LB_ERR)"

text \<open>
  The window. Of the child controls the model keeps the handle, whether it is shown,
  the text of the two edit fields and the content of the list box. \<open>callback = None\<close>
  is the null observer; \<open>nested_msg\<close> is the pointer to the message of the enclosing
  dispatch, \<open>None\<close> when null; \<open>userdata\<close> tells whether the window's
  \<^verbatim>\<open>GWLP_USERDATA\<close> slot holds the object; \<open>focus\<close>, \<open>zorder\<close>, \<open>tabstops\<close> and
  \<open>shift_down\<close> are what \<^verbatim>\<open>GetFocus\<close>, \<^verbatim>\<open>GetWindow\<close>, the \<^verbatim>\<open>WS_TABSTOP\<close> style and
  \<^verbatim>\<open>GetAsyncKeyState(VK_SHIFT)\<close> answer.
\<close>

record DefaultMainWindow =
  ui :: UI
  wnd :: HWND
  edit1 :: HWND
  edit2 :: HWND
  label1 :: HWND
  label2 :: HWND
  button :: HWND
  listbox :: HWND
  destroyed :: bool
  callback :: "nat option"
  nested_msg :: "UINT option"
  auto_call :: bool
  userdata :: bool
  edit1_text :: string
  edit2_text :: string
  listbox_content :: ListBox
  shown :: "HWND set"
  focus :: HWND
  zorder :: "HWND list"
  tabstops :: "HWND set"
  shift_down :: bool
  events :: "event list"

definition emit :: "event \<Rightarrow> DefaultMainWindow \<Rightarrow> DefaultMainWindow" where
  "emit e w = w \<lparr> events := events w @ [e] \<rparr>"

definition SetFocus :: "HWND \<Rightarrow> DefaultMainWindow \<Rightarrow> DefaultMainWindow" where
  "SetFocus h w = w \<lparr> focus := h \<rparr>"

text \<open>\<^verbatim>\<open>std::string::c_str\<close> read as a C string: the characters before the first NUL.\<close>

definition c_str :: "string \<Rightarrow> string" where
  "c_str str = takeWhile (\<lambda>c. c \<noteq> CHR 0x00) str"

text \<open>The helper \<^verbatim>\<open>GetWindowText\<close> reads at most \<^verbatim>\<open>MAX_PATH - 1\<close> characters.\<close>

definition GetWindowText :: "string \<Rightarrow> string" where
  "GetWindowText text = take 259 (c_str text)"

text \<open>
  \<^verbatim>\<open>atoi\<close>: white space, an optional sign, then decimal digits up to the first other
  character. The C library converts the digits to a \<^verbatim>\<open>long\<close>, which saturates, and
  \<^verbatim>\<open>atoi\<close> narrows that to the 32 bits of an \<^verbatim>\<open>int\<close>. \<open>static_cast_int\<close> is the
  narrowing of an integer to \<^verbatim>\<open>int\<close>.
\<close>

definition static_cast_int :: "int \<Rightarrow> int" where
  "static_cast_int n = signed_take_bit 31 n"

definition digit_val :: "char \<Rightarrow> int" where
  "digit_val c = int (of_char c) - 48"

definition is_digit :: "char \<Rightarrow> bool" where
  "is_digit c \<longleftrightarrow> 48 \<le> (of_char c :: nat) \<and> (of_char c :: nat) \<le> 57"

definition is_space :: "char \<Rightarrow> bool" where
  "is_space c \<longleftrightarrow> (of_char c :: nat) = 32 \<or> (9 \<le> (of_char c :: nat) \<and> (of_char c :: nat) \<le> 13)"

definition atoi :: "string \<Rightarrow> int" where
  "atoi str =
     (let t = dropWhile is_space str;
          (neg, t) = (case t of
                        c # cs \<Rightarrow> if c = CHR ''-'' then (True, cs)
                                  else if c = CHR ''+'' then (False, cs) else (False, t)
                      | [] \<Rightarrow> (False, t));
          n = fold (\<lambda>c a. 10 * a + digit_val c) (takeWhile is_digit t) 0;
          l = (if neg then max (- n) (- (2 ^ 63)) else min n (2 ^ 63 - 1))
      in static_cast_int l)"

text \<open>
  \<^verbatim>\<open>AddListBoxItem(listbox, str, item_data)\<close>: \<^verbatim>\<open>LB_ADDSTRING\<close>, then \<^verbatim>\<open>LB_SETITEMDATA\<close>
  at the index it returned.
\<close>

definition AddListBoxItem :: "string \<Rightarrow> LPARAM \<Rightarrow> ListBox \<Rightarrow> ListBox" where
  "AddListBoxItem str item_data lb =
     (let (index, lb) = LB_ADDSTRING (c_str str) lb in LB_SETITEMDATA index item_data lb)"

text \<open>
  Of \<^verbatim>\<open>LayoutConnectUI\<close> and \<^verbatim>\<open>LayoutPeerListUI\<close> the model keeps which controls they show
  and hide; sizes and positions are left out.
\<close>

definition LayoutConnectUI :: "bool \<Rightarrow> DefaultMainWindow \<Rightarrow> DefaultMainWindow" where
  "LayoutConnectUI show w =
     (let windows = {label1 w, edit1 w, label2 w, edit2 w, button w}
      in if show then w \<lparr> shown := shown w \<union> windows \<rparr>
         else w \<lparr> shown := shown w - windows \<rparr>)"

definition LayoutPeerListUI :: "bool \<Rightarrow> DefaultMainWindow \<Rightarrow> DefaultMainWindow" where
  "LayoutPeerListUI show w =
     (if show then w \<lparr> shown := insert (listbox w) (shown w) \<rparr>
      else w \<lparr> shown := shown w - {listbox w} \<rparr>)"

text \<open>
  \<^verbatim>\<open>SwitchToPeerList(peers)\<close>. \<^verbatim>\<open>Peers\<close> is declared outside this file; \<open>peers\<close> is the
  sequence of (identifier, name) pairs that the iteration from \<^verbatim>\<open>peers.begin()\<close> to
  \<^verbatim>\<open>peers.end()\<close> visits.
\<close>

definition SwitchToPeerList :: "(int \<times> string) list \<Rightarrow> DefaultMainWindow \<Rightarrow> DefaultMainWindow" where
  "SwitchToPeerList peers w =
     (let w = LayoutConnectUI False w;
          lb = LB_RESETCONTENT (listbox_content w);
          lb = AddListBoxItem ''List of currently connected peers:'' (- 1) lb;
          lb = fold (\<lambda>i l. AddListBoxItem (snd i) (fst i) l) peers lb;
          w = w \<lparr> listbox_content := lb, ui := LIST_PEERS \<rparr>;
          w = LayoutPeerListUI True w;
          w = SetFocus (listbox w) w
      in if auto_call w \<and> peers \<noteq> [] then
           (let count = LB_GETCOUNT (listbox_content w)
            in if count \<noteq> LB_ERR then
                 (let (selection, lb) = LB_SETCURSEL (count - 1) (listbox_content w);
                      w = w \<lparr> listbox_content := lb \<rparr>
                  in if selection \<noteq> LB_ERR
                     then emit (PostMessage \<lparr> hwnd = wnd w, message = WM_COMMAND,
                                   wParam = MAKEWPARAM LISTBOX_ID LBN_DBLCLK,
                                   lParam = listbox w \<rparr>) w
                     else w)
               else w)
         else w)"

text \<open>\<^verbatim>\<open>OnDefaultAction()\<close>.\<close>

definition OnDefaultAction :: "DefaultMainWindow \<Rightarrow> DefaultMainWindow" where
  "OnDefaultAction w =
     (if callback w = None then w
      else if ui w = CONNECT_TO_SERVER then
        (let server = GetWindowText (edit1_text w);
             port_str = GetWindowText (edit2_text w);
             port = (if length port_str \<noteq> 0 then atoi port_str else 0)
         in emit (StartLogin server port) w)
      else if ui w = LIST_PEERS then
        (let sel = LB_GETCURSEL (listbox_content w)
         in if sel \<noteq> LB_ERR then
              (let peer_id = LB_GETITEMDATA sel (listbox_content w)
               in if peer_id \<noteq> - 1 \<and> callback w \<noteq> None then emit (ConnectToPeer peer_id) w
                  else w)
            else w)
      else emit (MessageBoxA ''OK!'' ''Yeah'') w)"

text \<open>
  \<^verbatim>\<open>HandleTabbing()\<close>. \<^verbatim>\<open>GetWindow\<close> answers from the z-order of the sibling windows,
  with the null handle where there is no such window. The loop of the source has no
  bound, so the model is a partial function: \<open>None\<close> when the loop does not end.
\<close>

datatype GetWindowCmd = GW_HWNDFIRST | GW_HWNDLAST | GW_HWNDNEXT | GW_HWNDPREV

fun after_in :: "HWND \<Rightarrow> HWND list \<Rightarrow> HWND" where
  "after_in h [] = 0"
| "after_in h [x] = 0"
| "after_in h (x # y # zs) = (if x = h then y else after_in h (y # zs))"

definition GetWindow :: "HWND list \<Rightarrow> HWND \<Rightarrow> GetWindowCmd \<Rightarrow> HWND" where
  "GetWindow zs h cmd =
     (if h \<notin> set zs then 0
      else case cmd of
             GW_HWNDFIRST \<Rightarrow> hd zs
           | GW_HWNDLAST \<Rightarrow> last zs
           | GW_HWNDNEXT \<Rightarrow> after_in h zs
           | GW_HWNDPREV \<Rightarrow> after_in h (rev zs))"

definition visible_tabstop :: "DefaultMainWindow \<Rightarrow> HWND \<Rightarrow> bool" where
  "visible_tabstop w h \<longleftrightarrow> h \<noteq> 0 \<and> h \<in> shown w \<and> h \<in> tabstops w"

partial_function (option) tab_loop :: "DefaultMainWindow \<Rightarrow> HWND \<Rightarrow> HWND option" where
  "tab_loop w fcs =
     (let next_cmd = (if shift_down w then GW_HWNDPREV else GW_HWNDNEXT);
          loop_around_cmd = (if shift_down w then GW_HWNDLAST else GW_HWNDFIRST);
          next = GetWindow (zorder w) fcs next_cmd
      in if visible_tabstop w next then Some next
         else if next = 0 then
           (let next = GetWindow (zorder w) fcs loop_around_cmd
            in if visible_tabstop w next then Some next else tab_loop w next)
         else tab_loop w next)"

definition HandleTabbing :: "DefaultMainWindow \<Rightarrow> DefaultMainWindow option" where
  "HandleTabbing w = map_option (\<lambda>next. SetFocus next w) (tab_loop w (focus w))"

text \<open>
  \<^verbatim>\<open>PreTranslateMessage(msg)\<close>. The result is \<open>None\<close> when the call does not return,
  a fault when it calls through the null observer, and otherwise the returned flag with
  the window.
\<close>

definition PreTranslateMessage ::
  "MSG \<Rightarrow> DefaultMainWindow \<Rightarrow> (fault + bool \<times> DefaultMainWindow) option" where
  "PreTranslateMessage msg w =
     (if message msg = WM_CHAR then
        (if wParam msg = VK_TAB then
           map_option (\<lambda>w'. Inr (True, w')) (HandleTabbing w)
         else if wParam msg = VK_RETURN then Some (Inr (True, OnDefaultAction w))
         else if wParam msg = VK_ESCAPE then
           (if callback w \<noteq> None then
              (if ui w = STREAMING then Some (Inr (False, emit DisconnectFromCurrentPeer w))
               else Some (Inr (False, emit DisconnectFromServer w)))
            else Some (Inr (False, w)))
         else Some (Inr (False, w)))
      else if hwnd msg = 0 \<and> message msg = UI_THREAD_CALLBACK then
        (case callback w of
           None \<Rightarrow> Some (Inl NullDereference)
         | Some c \<Rightarrow>
             Some (Inr (True, emit (UIThreadCallback (static_cast_int (wParam msg)) (lParam msg)) w)))
      else Some (Inr (False, w)))"

text \<open>
  \<^verbatim>\<open>OnMessage(msg, wp, lp, result)\<close>: the returned flag and the window. The value stored
  in \<^verbatim>\<open>*result\<close> is left out.
\<close>

definition OnMessage :: "MSG \<Rightarrow> DefaultMainWindow \<Rightarrow> bool \<times> DefaultMainWindow" where
  "OnMessage m w =
     (if message m = WM_ERASEBKGND then (True, w)
      else if message m = WM_PAINT then (True, emit Paint w)
      else if message m = WM_SETFOCUS then
        (True, if ui w = CONNECT_TO_SERVER then SetFocus (edit1 w) w
               else if ui w = LIST_PEERS then SetFocus (listbox w) w else w)
      else if message m = WM_SIZE then
        (False, if ui w = CONNECT_TO_SERVER then LayoutConnectUI True w
                else if ui w = LIST_PEERS then LayoutPeerListUI True w else w)
      else if message m = WM_CTLCOLORSTATIC then (True, w)
      else if message m = WM_COMMAND then
        (True, if button w = lParam m then
                 (if BN_CLICKED = HIWORD (wParam m) then OnDefaultAction w else w)
               else if listbox w = lParam m then
                 (if LBN_DBLCLK = HIWORD (wParam m) then OnDefaultAction w else w)
               else w)
      else if message m = WM_CLOSE then
        (False, if callback w \<noteq> None then emit Close w else w)
      else (False, w))"

text \<open>\<^verbatim>\<open>OnDestroyed()\<close> posts the quit message.\<close>

definition OnDestroyed :: "DefaultMainWindow \<Rightarrow> DefaultMainWindow" where
  "OnDestroyed w = emit (PostQuitMessage 0) w"

text \<open>
  A dispatch of a message to the window procedure, with the dispatches that reenter the
  window procedure before it returns: those made while \<^verbatim>\<open>OnMessage\<close> runs (inside the
  calls it makes on the observer and on the window system) and those made while
  \<^verbatim>\<open>DefWindowProc\<close> runs, when the window procedure calls it.
\<close>

datatype dispatch = Dispatch MSG "dispatch list" "dispatch list"

text \<open>\<^verbatim>\<open>WndProc(hwnd, msg, wp, lp)\<close>; the returned \<^verbatim>\<open>LRESULT\<close> is left out.\<close>

fun WndProc :: "dispatch \<Rightarrow> DefaultMainWindow \<Rightarrow> DefaultMainWindow"
  and WndProcs :: "dispatch list \<Rightarrow> DefaultMainWindow \<Rightarrow> DefaultMainWindow" where
  "WndProc (Dispatch m in_handler in_default) w0 =
     (let w = (if \<not> userdata w0 \<and> WM_CREATE = message m
               then w0 \<lparr> wnd := hwnd m, userdata := True \<rparr> else w0)
      in if userdata w then
           (let prev_nested_msg = nested_msg w;
                w = emit (Routed (message m)) (w \<lparr> nested_msg := Some (message m) \<rparr>);
                handled = fst (OnMessage m w);
                w = WndProcs in_handler (snd (OnMessage m w));
                w = (if WM_NCDESTROY = message m then w \<lparr> destroyed := True \<rparr>
                     else if \<not> handled then WndProcs in_default w else w);
                w = (if destroyed w \<and> prev_nested_msg = None
                     then (OnDestroyed w) \<lparr> wnd := 0, destroyed := False \<rparr> else w)
            in w \<lparr> nested_msg := prev_nested_msg \<rparr>)
         else WndProcs in_default w)"
| "WndProcs [] w = w"
| "WndProcs (d # ds) w = WndProcs ds (WndProc d w)"

text \<open>
  What the handlers of \<open>OnMessage\<close> read of the window to decide what they call: two
  windows that agree on it make the same calls.
\<close>

definition same_view :: "DefaultMainWindow \<Rightarrow> DefaultMainWindow \<Rightarrow> bool" where
  "same_view w w' \<longleftrightarrow>
     ui w' = ui w \<and> callback w' = callback w \<and> button w' = button w \<and>
     listbox w' = listbox w \<and> edit1_text w' = edit1_text w \<and> edit2_text w' = edit2_text w \<and>
     listbox_content w' = listbox_content w"

text \<open>The events that \<open>OnMessage\<close> adds for a message.\<close>

definition handler_events :: "MSG \<Rightarrow> DefaultMainWindow \<Rightarrow> event list" where
  "handler_events m w = events (snd (OnMessage m (w \<lparr> events := [] \<rparr>)))"

text \<open>
  Read off a dispatch, for an attached window: the messages that enter the router, in
  order, and the events of the handlers. The dispatches nested in \<^verbatim>\<open>DefWindowProc\<close>
  count only where the window procedure calls it: the message is not
  \<^verbatim>\<open>WM_NCDESTROY\<close> and \<open>OnMessage\<close> has not handled it.
\<close>

fun dispatched :: "DefaultMainWindow \<Rightarrow> dispatch \<Rightarrow> UINT list" where
  "dispatched w (Dispatch m in_handler in_default) =
     message m #
     concat (map (dispatched w) in_handler) @
     (if WM_NCDESTROY = message m \<or> fst (OnMessage m w) then []
      else concat (map (dispatched w) in_default))"

fun dispatch_events :: "DefaultMainWindow \<Rightarrow> dispatch \<Rightarrow> event list" where
  "dispatch_events w (Dispatch m in_handler in_default) =
     Routed (message m) # handler_events m w @
     concat (map (dispatch_events w) in_handler) @
     (if WM_NCDESTROY = message m \<or> fst (OnMessage m w) then []
      else concat (map (dispatch_events w) in_default))"

text \<open>
  What a nested dispatch does to the window: it appends the events \<open>tr\<close>; the
  \<open>destroyed\<close> flag is set afterwards exactly when it was set before or
  \<^verbatim>\<open>WM_NCDESTROY\<close> is among the messages \<open>ms\<close>; the window stays attached,
  \<open>nested_msg\<close> is restored and the handlers see the same window.
\<close>

definition nested_step ::
  "event list \<Rightarrow> UINT list \<Rightarrow> DefaultMainWindow \<Rightarrow> DefaultMainWindow \<Rightarrow> bool" where
  "nested_step tr ms w w' \<longleftrightarrow>
     events w' = events w @ tr \<and>
     (destroyed w' \<longleftrightarrow> destroyed w \<or> WM_NCDESTROY \<in> set ms) \<and>
     userdata w' \<and> nested_msg w' = nested_msg w \<and> same_view w w'"

text \<open>The list that \<^verbatim>\<open>SwitchToPeerList\<close> builds: the header row, then one row per peer.\<close>

definition peer_list :: "(int \<times> string) list \<Rightarrow> (string \<times> LPARAM) list" where
  "peer_list peers =
     (''List of currently connected peers:'', - 1) # map (\<lambda>i. (c_str (snd i), fst i)) peers"

text \<open>The user selects a row of the list box.\<close>

definition select_row :: "int \<Rightarrow> DefaultMainWindow \<Rightarrow> DefaultMainWindow" where
  "select_row i w = w \<lparr> listbox_content := snd (LB_SETCURSEL i (listbox_content w)) \<rparr>"

text \<open>
  A window for examples: created and attached, in the connect state, with an observer
  registered; and a message to the window with no parameters.
\<close>

definition example_window :: DefaultMainWindow where
  "example_window =
     \<lparr> ui = CONNECT_TO_SERVER, wnd = 1, edit1 = 3, edit2 = 5, label1 = 2, label2 = 4,
       button = 6, listbox = 7, destroyed = False, callback = Some 1, nested_msg = None,
       auto_call = False, userdata = True, edit1_text = ''localhost'', edit2_text = ''8888'',
       listbox_content = \<lparr> entries = [], cursel = - 1 \<rparr>, shown = {2, 3, 4, 5, 6},
       focus = 3, zorder = [2, 3, 4, 5, 6, 7], tabstops = {3, 5, 6}, shift_down = False,
       events = [] \<rparr>"

definition msg0 :: "UINT \<Rightarrow> MSG" where
  "msg0 m = \<lparr> hwnd = 1, message = m, wParam = 0, lParam = 0 \<rparr>"

section \<open>Removing the service\<close>

text \<open>
  \<^verbatim>\<open>RemoveService()\<close> talks to the service control manager. The answers of the manager
  are the environment \<open>scm\<close>: whether the two handles open, what \<^verbatim>\<open>ControlService\<close>
  answers (\<open>None\<close> when it fails, otherwise the state it reports), what the \<open>n\<close>-th call
  of \<^verbatim>\<open>QueryServiceStatus\<close> answers (\<open>None\<close> when it fails), and whether
  \<^verbatim>\<open>DeleteService\<close> succeeds. The calls the function makes are recorded in order. The
  polling loop of the source has no bound, so it is a partial function: \<open>None\<close> when
  the loop does not end.
\<close>

definition SERVICE_STOPPED :: DWORD where "SERVICE_STOPPED = 1"
definition SERVICE_STOP_PENDING :: DWORD where "SERVICE_STOP_PENDING = 3"

datatype SC_HANDLE = schSCManager | schService

datatype scm_call =
    OpenSCManager
  | OpenService
  | ControlService
  | Wprintf string
  | Sleep nat
  | QueryServiceStatus
  | DeleteService
  | CloseServiceHandle SC_HANDLE

record scm =
  open_manager_ok :: bool
  open_service_ok :: bool
  control_stop :: "DWORD option"
  query_status :: "nat \<Rightarrow> DWORD option"
  delete_ok :: bool

text \<open>
  The loop \<^verbatim>\<open>while (QueryServiceStatus(...)) { if (state == SERVICE_STOP_PENDING) { print;
  Sleep(1000); } else break; }\<close> from its \<open>n\<close>-th query on, with the status last
  written to \<^verbatim>\<open>ssSvcStatus\<close>; a failed query leaves the status as it is.
\<close>

partial_function (option) poll_stop ::
  "(nat \<Rightarrow> DWORD option) \<Rightarrow> nat \<Rightarrow> DWORD \<Rightarrow> scm_call list \<Rightarrow> (DWORD \<times> scm_call list) option" where
  "poll_stop q n dwCurrentState calls =
     (case q n of
        None \<Rightarrow> Some (dwCurrentState, calls @ [QueryServiceStatus])
      | Some st \<Rightarrow>
          if st = SERVICE_STOP_PENDING
          then poll_stop q (Suc n) st (calls @ [QueryServiceStatus, Wprintf ''.'', Sleep 1000])
          else Some (st, calls @ [QueryServiceStatus]))"

definition RemoveService :: "scm \<Rightarrow> (bool \<times> scm_call list) option" where
  "RemoveService e =
     (if \<not> open_manager_ok e then Some (False, [OpenSCManager])
      else if \<not> open_service_ok e
      then Some (False, [OpenSCManager, OpenService, CloseServiceHandle schSCManager])
      else
        case (case control_stop e of
                None \<Rightarrow> Some (0, [OpenSCManager, OpenService, ControlService])
              | Some st \<Rightarrow>
                  poll_stop (query_status e) 0 st
                    [OpenSCManager, OpenService, ControlService, Wprintf ''Stopping %s.'',
                     Sleep 1000]) of
          None \<Rightarrow> None
        | Some (dwCurrentState, calls) \<Rightarrow>
            if \<not> delete_ok e
            then Some (False, calls @ [DeleteService, CloseServiceHandle schSCManager,
                                       CloseServiceHandle schService])
            else Some (True, calls @ [DeleteService]))"

text \<open>
  The calls of one execution in which both handles open, the stop control is accepted
  and the loop ends at query number \<open>n\<close> (counted from 0).
\<close>

definition calls_with_polls :: "nat \<Rightarrow> bool \<Rightarrow> scm_call list" where
  "calls_with_polls n deleted =
     [OpenSCManager, OpenService, ControlService, Wprintf ''Stopping %s.'', Sleep 1000] @
     concat (replicate n [QueryServiceStatus, Wprintf ''.'', Sleep 1000]) @
     [QueryServiceStatus, DeleteService] @
     (if deleted then [] else [CloseServiceHandle schSCManager, CloseServiceHandle schService])"

text \<open>
  An environment for examples: the stop is accepted, the service is reported as stop
  pending \<open>n\<close> times and then in state \<open>final\<close> (\<open>None\<close>: the query fails).
\<close>

definition pending_then :: "nat \<Rightarrow> DWORD option \<Rightarrow> bool \<Rightarrow> scm" where
  "pending_then n final del =
     \<lparr> open_manager_ok = True, open_service_ok = True,
       control_stop = Some SERVICE_STOP_PENDING,
       query_status = (\<lambda>i. if i < n then Some SERVICE_STOP_PENDING else final),
       delete_ok = del \<rparr>"

section \<open>Properties of the video renderer\<close>

lemma sint32:
  fixes w :: "32 word"
  shows "sint w = (if uint w < 2 ^ 31 then uint w else uint w - 2 ^ 32)"
proof -
  have b: "0 \<le> uint w" "uint w < 2 ^ 32"
    using uint_lt2p [of w] by simp_all
  have "sint w = (uint w + 2 ^ 31) mod 2 ^ 32 - 2 ^ 31"
    by (simp add: sint_uint signed_take_bit_eq_take_bit_shift take_bit_eq_mod)
  also have "\<dots> = (if uint w < 2 ^ 31 then uint w else uint w - 2 ^ 32)"
  proof (cases "uint w < 2 ^ 31")
    case True
    then have "(uint w + 2 ^ 31) mod 2 ^ 32 = uint w + 2 ^ 31"
      using b by simp
    then show ?thesis using True by simp
  next
    case False
    then have "(uint w + 2 ^ 31) mod 2 ^ 32 = uint w + 2 ^ 31 - 2 ^ 32"
      using b by (simp add: mod_pos_geq mod_pos_pos_trivial)
    then show ?thesis using False by simp
  qed
  finally show ?thesis .
qed

lemma sint_nonneg_uint:
  fixes h :: "32 word"
  assumes "0 \<le> sint h"
  shows "uint h = sint h"
  using assms uint_lt2p [of h] by (simp add: sint32 split: if_splits)

lemma uint_neg32:
  fixes h :: "32 word"
  shows "uint (- h) = (if h = 0 then 0 else 2 ^ 32 - uint h)"
proof (cases "h = 0")
  case True
  then show ?thesis by simp
next
  case False
  then have "uint h \<noteq> 0" by (simp add: uint_0_iff)
  moreover have "0 \<le> uint h" by simp
  ultimately have "0 < uint h" by linarith
  moreover have "uint h < 2 ^ 32" using uint_lt2p [of h] by simp
  ultimately
  have "(- uint h) mod 2 ^ 32 = 2 ^ 32 - uint h"
    by (simp add: zmod_zminus1_eq_if mod_pos_pos_trivial)
  then show ?thesis using False by (simp add: uint_word_ariths)
qed

lemma sint_neg_nonpos:
  fixes h :: "32 word"
  assumes "0 \<le> sint h"
  shows "sint (- h) \<le> 0"
  using assms uint_lt2p [of h] uint_ge_0 [of h]
  by (auto simp: sint32 [of "- h"] sint32 [of h] uint_neg32 split: if_splits)

lemma sint_both_zero:
  fixes h :: "32 word"
  assumes "0 \<le> sint h" "sint h \<le> 0"
  shows "h = 0"
  using assms signed_eq_0_iff by force

lemma unat_size_exact:
  fixes w h :: "32 word"
  assumes "0 \<le> sint w" "0 \<le> sint h" "sint w * sint h * 4 < 2 ^ 32"
  shows "int (unat (w * h * 4)) = sint w * sint h * 4"
proof -
  have u: "uint w = sint w" "uint h = sint h"
    using assms sint_nonneg_uint by simp_all
  have "uint (w * h * 4) = (uint w * uint h * 4) mod 2 ^ 32"
    by (simp add: uint_word_ariths mod_mult_left_eq)
  also have "\<dots> = sint w * sint h * 4"
    using assms u by simp
  finally show ?thesis by simp
qed


lemma length_store_argb: "length (store_argb dst off v) = length dst"
  by (simp add: store_argb_def)

lemma length_fold_keep:
  "(\<And>x d. length (f x d) = length d) \<Longrightarrow> length (fold f xs d) = length d"
  by (induction xs arbitrary: d) simp_all

lemma length_I420ToARGB: "length (I420ToARGB px src dst st w h) = length dst"
  unfolding I420ToARGB_def
  by (simp add: length_fold_keep length_store_argb)

lemma renderer_inv_start: "renderer_inv StartRenderer"
  by (simp add: renderer_inv_def StartRenderer_def VideoRenderer_new_def)

lemma SetSize_inv:
  assumes "renderer_inv r" and "0 \<le> sint h"
  shows "renderer_inv (SetSize w h r) \<and> image (SetSize w h r) \<noteq> None \<and>
         biWidth (bmi (SetSize w h r)) = w \<and> biHeight (bmi (SetSize w h r)) = - h"
proof (cases "w = biWidth (bmi r) \<and> h = biHeight (bmi r)")
  case True
  with assms have "h = 0"
    using sint_both_zero [of h] by (simp add: renderer_inv_def)
  with True assms show ?thesis
    by (auto simp: renderer_inv_def SetSize_def split: option.splits)
next
  case False
  with assms show ?thesis
    using sint_neg_nonpos [of h]
    by (auto simp: renderer_inv_def SetSize_def Let_def new_uint8_t_def)
qed

lemma SetSize_allocates:
  assumes "h \<noteq> biHeight (bmi r)"
  shows "allocations (SetSize w h r) = Suc (allocations r)"
  using assms by (simp add: SetSize_def Let_def)

lemma upright_ok:
  "frame_ok f \<Longrightarrow> 0 \<le> sint (height (upright rot f)) \<and> 0 \<le> sint (width (upright rot f))"
  by (auto simp: frame_ok_def upright_def Rotate_def)

lemma OnFrame_unfold:
  assumes "image (SetSize (width (upright rot f)) (height (upright rot f)) r) = Some img"
  shows "OnFrame rot px f r =
     Inr (SetSize (width (upright rot f)) (height (upright rot f)) r
          \<lparr> image := Some (I420ToARGB px (planes (upright rot f)) img
                     (sint (biWidth (bmi (SetSize (width (upright rot f)) (height (upright rot f)) r)) *
                            ucast (biBitCount (bmi (SetSize (width (upright rot f)) (height (upright rot f)) r)))) sdiv 8)
                     (sint (width (upright rot f))) (sint (height (upright rot f)))),
            invalidations := Suc (invalidations (SetSize (width (upright rot f)) (height (upright rot f)) r)) \<rparr>)"
  using assms by (simp add: OnFrame_def upright_def Let_def)

lemma OnFrame_inv:
  assumes "renderer_inv r" and "frame_ok f"
  shows "\<exists>r'. OnFrame rot px f r = Inr r' \<and> renderer_inv r' \<and> image r' \<noteq> None \<and>
           biWidth (bmi r') = width (upright rot f) \<and>
           biHeight (bmi r') = - height (upright rot f) \<and>
           allocations r' = allocations (SetSize (width (upright rot f)) (height (upright rot f)) r)"
proof -
  let ?b = "upright rot f"
  let ?r = "SetSize (width ?b) (height ?b) r"
  from assms upright_ok [of f rot] have s: "renderer_inv ?r" "image ?r \<noteq> None"
    "biWidth (bmi ?r) = width ?b" "biHeight (bmi ?r) = - height ?b"
    using SetSize_inv [of r "height ?b" "width ?b"] by simp_all
  then obtain img where img: "image ?r = Some img" by auto
  note u = OnFrame_unfold [OF img, of px]
  show ?thesis
    unfolding u using s(1) s(3) s(4) img
    by (simp add: renderer_inv_def length_I420ToARGB)
qed

lemma OnFrames_inv:
  assumes "renderer_inv r" and "list_all frame_ok fs"
  shows "\<exists>r'. OnFrames rot px fs r = Inr r' \<and> renderer_inv r'"
  using assms
proof (induction fs arbitrary: r)
  case Nil
  then show ?case by simp
next
  case (Cons f fs)
  then obtain r1 where "OnFrame rot px f r = Inr r1" "renderer_inv r1"
    using OnFrame_inv [of r f rot px] by auto
  with Cons show ?case by simp
qed

lemma OnFrames_snoc:
  "OnFrames rot px (fs @ [f]) r =
     (case OnFrames rot px fs r of Inl e \<Rightarrow> Inl e | Inr r' \<Rightarrow> OnFrame rot px f r')"
  by (induction fs arbitrary: r) (auto split: sum.splits)

lemma OnFrames_last:
  assumes "list_all frame_ok fs" and "frame_ok f"
  shows "\<exists>r r'. OnFrames rot px fs StartRenderer = Inr r \<and> renderer_inv r \<and>
           OnFrames rot px (fs @ [f]) StartRenderer = Inr r' \<and> OnFrame rot px f r = Inr r' \<and>
           renderer_inv r' \<and> image r' \<noteq> None \<and>
           biWidth (bmi r') = width (upright rot f) \<and>
           biHeight (bmi r') = - height (upright rot f) \<and>
           allocations r' = allocations (SetSize (width (upright rot f)) (height (upright rot f)) r)"
proof -
  obtain r where r: "OnFrames rot px fs StartRenderer = Inr r" "renderer_inv r"
    using OnFrames_inv [OF renderer_inv_start assms(1), of rot px] by auto
  obtain r' where r': "OnFrame rot px f r = Inr r'" "renderer_inv r'" "image r' \<noteq> None"
      "biWidth (bmi r') = width (upright rot f)" "biHeight (bmi r') = - height (upright rot f)"
      "allocations r' = allocations (SetSize (width (upright rot f)) (height (upright rot f)) r)"
    using OnFrame_inv [OF r(2) assms(2), of rot px] by auto
  show ?thesis using r r' by (simp add: OnFrames_snoc)
qed

lemma store_argb_nth:
  assumes "0 \<le> off" and "nat off + 4 \<le> length d"
  shows "k < 4 \<Longrightarrow> store_argb d off v ! (nat off + k) = ucast (drop_bit (8 * k) v)"
    and "i < nat off \<or> nat off + 4 \<le> i \<Longrightarrow> store_argb d off v ! i = d ! i"
proof -
  show "store_argb d off v ! (nat off + k) = ucast (drop_bit (8 * k) v)" if "k < 4"
  proof -
    from that consider "k = 0" | "k = 1" | "k = 2" | "k = 3" by linarith
    then show ?thesis
      using assms by cases (simp_all add: store_argb_def)
  qed
  show "store_argb d off v ! i = d ! i" if "i < nat off \<or> nat off + 4 \<le> i"
    using that assms by (auto simp: store_argb_def)
qed

lemma row_nth_all:
  assumes "0 \<le> base"
  shows "nat base + 4 * n \<le> length d \<Longrightarrow>
     (\<forall>x k. x < n \<longrightarrow> k < 4 \<longrightarrow>
        fold (\<lambda>x d'. store_argb d' (base + 4 * int x) (f x)) [0 ..< n] d ! (nat base + 4 * x + k) =
          ucast (drop_bit (8 * k) (f x))) \<and>
     (\<forall>i. i < nat base \<or> nat base + 4 * n \<le> i \<longrightarrow>
        fold (\<lambda>x d'. store_argb d' (base + 4 * int x) (f x)) [0 ..< n] d ! i = d ! i)"
proof (induction n)
  case 0
  then show ?case by simp
next
  case (Suc n)
  let ?d = "fold (\<lambda>x d'. store_argb d' (base + 4 * int x) (f x)) [0 ..< n] d"
  have le': "nat base + 4 * n \<le> length d" using Suc.prems by simp
  note ih = Suc.IH [OF le']
  have ih1: "?d ! (nat base + 4 * x + k) = ucast (drop_bit (8 * k) (f x))"
    if "x < n" "k < 4" for x k
    using ih that by blast
  have ih2: "?d ! i = d ! i" if "i < nat base \<or> nat base + 4 * n \<le> i" for i
    using ih that by blast
  have len: "length ?d = length d"
    by (simp add: length_fold_keep length_store_argb)
  have off: "0 \<le> base + 4 * int n" "nat (base + 4 * int n) = nat base + 4 * n"
    using assms by simp_all
  have fit: "nat (base + 4 * int n) + 4 \<le> length ?d"
    using Suc.prems len off by simp
  have step: "fold (\<lambda>x d'. store_argb d' (base + 4 * int x) (f x)) [0 ..< Suc n] d =
      store_argb ?d (base + 4 * int n) (f n)"
    by simp
  have a: "store_argb ?d (base + 4 * int n) (f n) ! (nat base + 4 * x + k) =
      ucast (drop_bit (8 * k) (f x))" if "x < Suc n" "k < 4" for x k
  proof (cases "x = n")
    case True
    then show ?thesis
      using store_argb_nth(1) [OF off(1) fit that(2), of "f n"] off(2) by simp
  next
    case False
    then have x: "x < n" using that(1) by simp
    have "nat base + 4 * x + k < nat (base + 4 * int n)"
      using x that(2) off(2) by simp
    then have "store_argb ?d (base + 4 * int n) (f n) ! (nat base + 4 * x + k) =
        ?d ! (nat base + 4 * x + k)"
      using store_argb_nth(2) [OF off(1) fit] by blast
    then show ?thesis using ih1 [OF x that(2)] by simp
  qed
  have b: "store_argb ?d (base + 4 * int n) (f n) ! i = d ! i"
    if "i < nat base \<or> nat base + 4 * Suc n \<le> i" for i
  proof -
    from that have "i < nat (base + 4 * int n) \<or> nat (base + 4 * int n) + 4 \<le> i"
      using off(2) by auto
    then have "store_argb ?d (base + 4 * int n) (f n) ! i = ?d ! i"
      using store_argb_nth(2) [OF off(1) fit] by blast
    moreover have "?d ! i = d ! i"
      using ih2 [of i] that by auto
    ultimately show ?thesis by simp
  qed
  show ?case unfolding step using a b by blast
qed

lemma image_nth_all:
  "4 * W * m \<le> length d \<Longrightarrow>
     (\<forall>x y k. x < W \<longrightarrow> y < m \<longrightarrow> k < 4 \<longrightarrow>
        fold (\<lambda>y d. fold (\<lambda>x d'. store_argb d' (int y * (4 * int W) + 4 * int x) (px x y)) [0 ..< W] d)
          [0 ..< m] d ! (4 * (y * W + x) + k) = ucast (drop_bit (8 * k) (px x y))) \<and>
     (\<forall>i. 4 * W * m \<le> i \<longrightarrow>
        fold (\<lambda>y d. fold (\<lambda>x d'. store_argb d' (int y * (4 * int W) + 4 * int x) (px x y)) [0 ..< W] d)
          [0 ..< m] d ! i = d ! i)"
proof (induction m)
  case 0
  then show ?case by simp
next
  case (Suc m)
  let ?row = "\<lambda>y d. fold (\<lambda>x d'. store_argb d' (int y * (4 * int W) + 4 * int x) (px x y)) [0 ..< W] d"
  let ?d = "fold ?row [0 ..< m] d"
  have le: "4 * W * m \<le> length d" using Suc.prems by simp
  note ih = Suc.IH [OF le]
  have ih1: "?d ! (4 * (y * W + x) + k) = ucast (drop_bit (8 * k) (px x y))"
    if "x < W" "y < m" "k < 4" for x y k
    using ih that by blast
  have ih2: "?d ! i = d ! i" if "4 * W * m \<le> i" for i
    using ih that by blast
  have len: "length ?d = length d"
    by (simp add: length_fold_keep length_store_argb)
  have base: "0 \<le> int m * (4 * int W)" "nat (int m * (4 * int W)) = 4 * W * m"
    by (simp_all add: nat_mult_distrib)
  have fit: "nat (int m * (4 * int W)) + 4 * W \<le> length ?d"
    using Suc.prems len base(2) by simp
  note r = row_nth_all [OF base(1) fit, of "\<lambda>x. px x m", unfolded base(2)]
  have r1: "?row m ?d ! (4 * W * m + 4 * x + k) = ucast (drop_bit (8 * k) (px x m))"
    if "x < W" "k < 4" for x k
    using r that by blast
  have r2: "?row m ?d ! i = ?d ! i" if "i < 4 * W * m \<or> 4 * W * m + 4 * W \<le> i" for i
    using r that by blast
  have step: "fold ?row [0 ..< Suc m] d = ?row m ?d" by simp
  have a: "?row m ?d ! (4 * (y * W + x) + k) = ucast (drop_bit (8 * k) (px x y))"
    if "x < W" "y < Suc m" "k < 4" for x y k
  proof (cases "y = m")
    case True
    have e: "4 * (y * W + x) + k = 4 * W * m + 4 * x + k"
      unfolding True by (simp add: algebra_simps)
    show ?thesis unfolding e using r1 [OF that(1,3)] True by simp
  next
    case False
    then have y: "y < m" using that(2) by simp
    have "Suc y * W \<le> m * W" using y by (intro mult_le_mono1) simp
    then have "y * W + x < m * W" using that(1) by simp
    then have "4 * (y * W + x) + k < 4 * W * m" using that(3) by (simp add: algebra_simps)
    then have "?row m ?d ! (4 * (y * W + x) + k) = ?d ! (4 * (y * W + x) + k)"
      using r2 by blast
    then show ?thesis using ih1 [OF that(1) y that(3)] by simp
  qed
  have b: "?row m ?d ! i = d ! i" if "4 * W * Suc m \<le> i" for i
  proof -
    have "4 * W * m + 4 * W \<le> i" using that by (simp add: algebra_simps)
    then have "?row m ?d ! i = ?d ! i" using r2 by blast
    moreover have "?d ! i = d ! i" using ih2 [of i] that by simp
    ultimately show ?thesis by simp
  qed
  show ?case unfolding step using a b by blast
qed

lemma I420ToARGB_pixels:
  assumes "0 < w" and "0 < h" and "4 * nat w * nat h \<le> length dst"
    and "x < nat w" and "y < nat h" and "k < 4"
  shows "I420ToARGB px src dst (4 * w) w h ! (4 * (y * nat w + x) + k) =
           ucast (drop_bit (8 * k) (px src x y))"
proof -
  have w: "int (nat w) = w" and h: "nat \<bar>h\<bar> = nat h" using assms(1,2) by simp_all
  have "I420ToARGB px src dst (4 * w) w h =
      fold (\<lambda>y d. fold (\<lambda>x d'. store_argb d' (int y * (4 * int (nat w)) + 4 * int x) (px src x y))
                     [0 ..< nat w] d) [0 ..< nat h] dst"
    using assms(1,2) unfolding I420ToARGB_def w h by simp
  then show ?thesis
    using image_nth_all [OF assms(3), of "px src"] assms(4,5,6) by simp
qed

lemma stride_exact:
  fixes w :: "32 word"
  assumes "0 \<le> sint w" and "sint w < 2 ^ 26"
  shows "sint (w * ucast (32 :: WORD)) sdiv 8 = 4 * sint w"
proof -
  have u: "uint w = sint w" using assms(1) sint_nonneg_uint by simp
  have "uint (w * 32) = (uint w * 32) mod 2 ^ 32"
    by (simp add: uint_word_ariths)
  also have "\<dots> = sint w * 32" using assms u by simp
  finally have "uint (w * 32) = sint w * 32" .
  moreover have "sint w * 32 < 2 ^ 31" using assms(2) by simp
  ultimately have "sint (w * 32) = sint w * 32"
    by (simp add: sint32)
  then show ?thesis
    using assms(1) by (simp add: signed_divide_int_def sgn_if)
qed

lemma OnFrame_image:
  assumes "renderer_inv r" and "frame_ok f"
  shows "\<exists>r' img. OnFrame rot px f r = Inr r' \<and>
           length img = unat (width (upright rot f) * height (upright rot f) * 4) \<and>
           image r' =
             Some (I420ToARGB px (planes (upright rot f)) img
                     (sint (width (upright rot f) * ucast (32 :: WORD)) sdiv 8)
                     (sint (width (upright rot f))) (sint (height (upright rot f)))) \<and>
           invalidations r' = Suc (invalidations r)"
proof -
  let ?b = "upright rot f"
  let ?r = "SetSize (width ?b) (height ?b) r"
  from assms upright_ok [of f rot] have s: "renderer_inv ?r" "image ?r \<noteq> None"
    "biWidth (bmi ?r) = width ?b" "biHeight (bmi ?r) = - height ?b"
    using SetSize_inv [of r "height ?b" "width ?b"] by simp_all
  then obtain img where img: "image ?r = Some img" by auto
  have len: "length img = unat (width ?b * height ?b * 4)"
    using s(1,3,4) img by (simp add: renderer_inv_def)
  have bc: "biBitCount (bmi ?r) = 32" using s(1) by (simp add: renderer_inv_def)
  have inv: "invalidations ?r = invalidations r" by (simp add: SetSize_def Let_def)
  show ?thesis
    unfolding OnFrame_unfold [OF img, of px] using len bc s(3) inv
    by (intro exI conjI) (rule refl, assumption, simp_all)
qed


text \<open>
  Claim C1. After every delivered frame the declared image size \<open>biSizeImage\<close> is
  \<open>width * height * 4\<close> of that frame's dimensions after rotation, computed in 32-bit
  arithmetic as the source computes it, and the buffer has exactly that many bytes;
  whenever the product fits the 32 bits, that is the product of the numbers. The size
  of an earlier frame is never kept.
\<close>

theorem OnFrame_buffer_size_is_latest:
  assumes "list_all frame_ok fs" and "frame_ok f"
  shows "\<exists>r img. OnFrames rot px (fs @ [f]) StartRenderer = Inr r \<and> image r = Some img \<and>
           biSizeImage (bmi r) = width (upright rot f) * height (upright rot f) * 4 \<and>
           length img = unat (width (upright rot f) * height (upright rot f) * 4) \<and>
           (sint (width (upright rot f)) * sint (height (upright rot f)) * 4 < 2 ^ 32 \<longrightarrow>
              int (length img) = sint (width (upright rot f)) * sint (height (upright rot f)) * 4)"
proof -
  obtain r' where r': "OnFrames rot px (fs @ [f]) StartRenderer = Inr r'" "renderer_inv r'"
      "image r' \<noteq> None" "biWidth (bmi r') = width (upright rot f)"
      "biHeight (bmi r') = - height (upright rot f)"
    using OnFrames_last [OF assms, of rot px] by auto
  then obtain img where img: "image r' = Some img" by auto
  have sz: "biSizeImage (bmi r') = width (upright rot f) * height (upright rot f) * 4"
    using r'(2,4,5) by (simp add: renderer_inv_def)
  have len: "length img = unat (width (upright rot f) * height (upright rot f) * 4)"
    using r'(2) img sz by (simp add: renderer_inv_def)
  have exact: "int (length img) = sint (width (upright rot f)) * sint (height (upright rot f)) * 4"
    if "sint (width (upright rot f)) * sint (height (upright rot f)) * 4 < 2 ^ 32"
    unfolding len using upright_ok [OF assms(2), of rot] that by (intro unat_size_exact) simp_all
  show ?thesis
    using r'(1) img sz len exact by blast
qed

theorem OnFrame_buffer_size_is_latest_witness:
  "\<exists>r img. OnFrames keep_planes black ([frame2 640 480 kVideoRotation_0] @ [frame2 3 2 kVideoRotation_90]) StartRenderer = Inr r \<and>
      image r = Some img \<and> biSizeImage (bmi r) = 24 \<and> length img = 24"
  using OnFrame_buffer_size_is_latest [of "[frame2 640 480 kVideoRotation_0]" "frame2 3 2 kVideoRotation_90" keep_planes black]
  by (simp add: frame_ok_def frame2_def upright_def Rotate_def)

text \<open>
  Claim C2, which the code does not meet. A frame whose dimensions after rotation equal
  the stored ones (the stored height being \<open>- biHeight\<close>) and whose height is not zero
  makes \<open>OnFrame\<close> allocate a new buffer all the same: \<open>SetSize\<close> compares the height
  with the negated height it stored.
\<close>

theorem OnFrame_equal_size_allocates_again:
  assumes "list_all frame_ok fs" and "frame_ok f" and "frame_ok g"
    and "width (upright rot g) = width (upright rot f)"
    and "height (upright rot g) = height (upright rot f)"
    and "height (upright rot g) \<noteq> 0"
  shows "\<exists>r r'. OnFrames rot px (fs @ [f]) StartRenderer = Inr r \<and>
           biWidth (bmi r) = width (upright rot g) \<and>
           - biHeight (bmi r) = height (upright rot g) \<and>
           OnFrame rot px g r = Inr r' \<and>
           allocations r' = Suc (allocations r)"
proof -
  obtain r where r: "OnFrames rot px (fs @ [f]) StartRenderer = Inr r" "renderer_inv r"
      "biWidth (bmi r) = width (upright rot f)" "biHeight (bmi r) = - height (upright rot f)"
    using OnFrames_last [OF assms(1,2), of rot px] by auto
  obtain r' where r': "OnFrame rot px g r = Inr r'"
      "allocations r' = allocations (SetSize (width (upright rot g)) (height (upright rot g)) r)"
    using OnFrame_inv [OF r(2) assms(3), of rot px] by auto
  have "height (upright rot g) \<noteq> biHeight (bmi r)"
  proof
    assume e: "height (upright rot g) = biHeight (bmi r)"
    have "0 \<le> sint (height (upright rot g))"
      using upright_ok [OF assms(3), of rot] by simp
    moreover have "sint (height (upright rot g)) \<le> 0"
      using r(2) e by (simp add: renderer_inv_def)
    ultimately show False
      using sint_both_zero assms(6) by blast
  qed
  then have "allocations r' = Suc (allocations r)"
    using r'(2) by (simp add: SetSize_allocates)
  with r r'(1) assms(4,5) show ?thesis by simp
qed

theorem OnFrame_equal_size_allocates_again_witness:
  "\<exists>r r'. OnFrames keep_planes black ([] @ [frame2 640 480 kVideoRotation_0]) StartRenderer = Inr r \<and>
      biWidth (bmi r) = 640 \<and> - biHeight (bmi r) = 480 \<and>
      OnFrame keep_planes black (frame2 640 480 kVideoRotation_0) r = Inr r' \<and>
      allocations r' = Suc (allocations r)"
  using OnFrame_equal_size_allocates_again [of "[]" "frame2 640 480 kVideoRotation_0"
      "frame2 640 480 kVideoRotation_0" keep_planes black]
  by (simp add: frame_ok_def frame2_def upright_def)

text \<open>
  Claim C3. For a frame that declares a rotation, \<open>OnFrame\<close> does what it does for the
  rotated buffer delivered with rotation 0: the rotation comes before the resize and the
  conversion. The stored dimensions are those of the rotated buffer: the frame's own for
  180 degrees, swapped for 90 and 270 degrees. The window is invalidated, and the stored
  buffer holds the conversion of the rotated planes: with a stored width below \<open>2^26\<close>
  and a size that fits the 32 bits, byte \<open>k\<close> of the pixel in column \<open>x\<close> and row \<open>y\<close>
  of the stored image is byte \<open>k\<close> of the colour of the pixel \<open>(x, y)\<close> of the rotated
  planes.
\<close>

theorem OnFrame_rotates_before_resize:
  assumes "list_all frame_ok fs" and "frame_ok f" and "rotation f \<noteq> kVideoRotation_0"
  shows "\<exists>r r' img. OnFrames rot px fs StartRenderer = Inr r \<and> OnFrame rot px f r = Inr r' \<and>
           OnFrame rot px f r =
             OnFrame rot px \<lparr> video_frame_buffer = Rotate rot (video_frame_buffer f) (rotation f),
                              rotation = kVideoRotation_0 \<rparr> r \<and>
           biWidth (bmi r') = width (Rotate rot (video_frame_buffer f) (rotation f)) \<and>
           - biHeight (bmi r') = height (Rotate rot (video_frame_buffer f) (rotation f)) \<and>
           (if rotation f = kVideoRotation_180
            then biWidth (bmi r') = width (video_frame_buffer f) \<and>
                 - biHeight (bmi r') = height (video_frame_buffer f)
            else biWidth (bmi r') = height (video_frame_buffer f) \<and>
                 - biHeight (bmi r') = width (video_frame_buffer f)) \<and>
           invalidations r' = Suc (invalidations r) \<and>
           image r' = Some img \<and> length img = unat (biSizeImage (bmi r')) \<and>
           (sint (biWidth (bmi r')) < 2 ^ 26 \<and>
            sint (biWidth (bmi r')) * sint (- biHeight (bmi r')) * 4 < 2 ^ 32 \<longrightarrow>
              (\<forall>x y k. x < nat (sint (biWidth (bmi r'))) \<longrightarrow> y < nat (sint (- biHeight (bmi r'))) \<longrightarrow>
                 k < 4 \<longrightarrow>
                 img ! (4 * (y * nat (sint (biWidth (bmi r'))) + x) + k) =
                   ucast (drop_bit (8 * k)
                     (px (rot (rotation f) (planes (video_frame_buffer f))) x y))))"
proof -
  let ?b = "upright rot f"
  obtain r r' where r: "OnFrames rot px fs StartRenderer = Inr r" "renderer_inv r"
      "OnFrame rot px f r = Inr r'" "renderer_inv r'"
      "biWidth (bmi r') = width ?b" "biHeight (bmi r') = - height ?b"
    using OnFrames_last [OF assms(1,2), of rot px] by auto
  obtain r'' img0 where i: "OnFrame rot px f r = Inr r''"
      "length img0 = unat (width ?b * height ?b * 4)"
      "image r'' = Some (I420ToARGB px (planes ?b) img0
                     (sint (width ?b * ucast (32 :: WORD)) sdiv 8)
                     (sint (width ?b)) (sint (height ?b)))"
      "invalidations r'' = Suc (invalidations r)"
    using OnFrame_image [OF r(2) assms(2), of rot px] by blast
  have same_r: "r'' = r'" using i(1) r(3) by simp
  define img where "img = I420ToARGB px (planes ?b) img0
                     (sint (width ?b * ucast (32 :: WORD)) sdiv 8)
                     (sint (width ?b)) (sint (height ?b))"
  have im: "image r' = Some img" "invalidations r' = Suc (invalidations r)"
    using i(3,4) same_r img_def by simp_all
  have u: "?b = Rotate rot (video_frame_buffer f) (rotation f)"
    using assms(3) by (simp add: upright_def)
  have pl: "planes ?b = rot (rotation f) (planes (video_frame_buffer f))"
    unfolding u by (simp add: Rotate_def)
  have same: "OnFrame rot px f r =
      OnFrame rot px \<lparr> video_frame_buffer = Rotate rot (video_frame_buffer f) (rotation f),
                       rotation = kVideoRotation_0 \<rparr> r"
    using assms(3) by (simp add: OnFrame_def Let_def)
  have dims: "if rotation f = kVideoRotation_180
      then width ?b = width (video_frame_buffer f) \<and> height ?b = height (video_frame_buffer f)
      else width ?b = height (video_frame_buffer f) \<and> height ?b = width (video_frame_buffer f)"
    using assms(3) unfolding u by (cases "rotation f") (simp_all add: Rotate_def)
  have sz: "biSizeImage (bmi r') = width ?b * height ?b * 4"
    using r(4,5,6) by (simp add: renderer_inv_def)
  have len: "length img = unat (biSizeImage (bmi r'))"
    unfolding img_def sz by (simp add: length_I420ToARGB i(2))
  have ok: "0 \<le> sint (width ?b)" "0 \<le> sint (height ?b)"
    using upright_ok [OF assms(2), of rot] by simp_all
  have pix: "img ! (4 * (y * nat (sint (width ?b)) + x) + k) =
      ucast (drop_bit (8 * k) (px (rot (rotation f) (planes (video_frame_buffer f))) x y))"
    if b: "sint (width ?b) < 2 ^ 26" "sint (width ?b) * sint (height ?b) * 4 < 2 ^ 32"
      and c: "x < nat (sint (width ?b))" "y < nat (sint (height ?b))" "k < 4" for x y k
  proof -
    have st: "sint (width ?b * ucast (32 :: WORD)) sdiv 8 = 4 * sint (width ?b)"
      using ok(1) b(1) by (rule stride_exact)
    have pos: "0 < sint (width ?b)" "0 < sint (height ?b)" using c by simp_all
    have "int (length img0) = sint (width ?b) * sint (height ?b) * 4"
      unfolding i(2) using ok b(2) by (intro unat_size_exact) simp_all
    then have "int (length img0) = int (4 * nat (sint (width ?b)) * nat (sint (height ?b)))"
      using ok by simp
    then have fit: "4 * nat (sint (width ?b)) * nat (sint (height ?b)) \<le> length img0"
      by linarith
    show ?thesis
      unfolding img_def st pl [symmetric]
      using I420ToARGB_pixels [OF pos fit c, of px "planes ?b"] by simp
  qed
  have hh: "- biHeight (bmi r') = height ?b" using r(6) by simp
  show ?thesis
    apply (rule exI [of _ r], rule exI [of _ r'], rule exI [of _ img], intro conjI)
    subgoal using r(1) .
    subgoal using r(3) .
    subgoal using same .
    subgoal using r(5) u by simp
    subgoal using hh u by simp
    subgoal using dims r(5) hh by (auto split: if_splits)
    subgoal using im(2) .
    subgoal using im(1) .
    subgoal using len .
    subgoal unfolding hh r(5) using pix by blast
    done
qed

theorem OnFrame_rotates_before_resize_witness:
  "(\<exists>r r'. OnFrames keep_planes black [frame2 640 480 kVideoRotation_0] StartRenderer = Inr r \<and>
      OnFrame keep_planes black (frame2 480 640 kVideoRotation_90) r = Inr r' \<and>
      biWidth (bmi r') = 640 \<and> - biHeight (bmi r') = 480) \<and>
   (\<exists>r' img. OnFrame next_planes shade (numbered_frame 1 2 kVideoRotation_90 7) StartRenderer = Inr r' \<and>
      biWidth (bmi r') = 2 \<and> - biHeight (bmi r') = 1 \<and>
      image r' = Some img \<and> length img = 8 \<and> img ! 4 = 33 \<and> img ! 5 = 3)"
proof -
  have a: "\<exists>r r'. OnFrames keep_planes black [frame2 640 480 kVideoRotation_0] StartRenderer = Inr r \<and>
      OnFrame keep_planes black (frame2 480 640 kVideoRotation_90) r = Inr r' \<and>
      biWidth (bmi r') = 640 \<and> - biHeight (bmi r') = 480"
    using OnFrame_rotates_before_resize [of "[frame2 640 480 kVideoRotation_0]"
        "frame2 480 640 kVideoRotation_90" keep_planes black]
    by (auto simp: frame_ok_def frame2_def Rotate_def)
  have h: "list_all frame_ok ([] :: nat VideoFrame list)"
    "frame_ok (numbered_frame 1 2 kVideoRotation_90 7)"
    "rotation (numbered_frame 1 2 kVideoRotation_90 7) \<noteq> kVideoRotation_0"
    by (simp_all add: frame_ok_def numbered_frame_def)
  obtain r r' img where
    r: "OnFrames next_planes shade [] StartRenderer = Inr r"
      "OnFrame next_planes shade (numbered_frame 1 2 kVideoRotation_90 7) r = Inr r'"
    and d: "biWidth (bmi r') = height (video_frame_buffer (numbered_frame 1 2 kVideoRotation_90 7))"
      "- biHeight (bmi r') = width (video_frame_buffer (numbered_frame 1 2 kVideoRotation_90 7))"
    and i: "image r' = Some img" "length img = unat (biSizeImage (bmi r'))"
    and p: "sint (biWidth (bmi r')) < 2 ^ 26 \<and>
            sint (biWidth (bmi r')) * sint (- biHeight (bmi r')) * 4 < 2 ^ 32 \<longrightarrow>
              (\<forall>x y k. x < nat (sint (biWidth (bmi r'))) \<longrightarrow> y < nat (sint (- biHeight (bmi r'))) \<longrightarrow>
                 k < 4 \<longrightarrow>
                 img ! (4 * (y * nat (sint (biWidth (bmi r'))) + x) + k) =
                   ucast (drop_bit (8 * k)
                     (shade (next_planes (rotation (numbered_frame 1 2 kVideoRotation_90 7))
                        (planes (video_frame_buffer (numbered_frame 1 2 kVideoRotation_90 7)))) x y)))"
    using OnFrame_rotates_before_resize [OF h, of next_planes shade]
    by (auto simp: numbered_frame_def)
  have r0: "r = StartRenderer" using r(1) by simp
  have w: "biWidth (bmi r') = 2" "- biHeight (bmi r') = 1"
    using d by (simp_all add: numbered_frame_def)
  have "OnFrame next_planes shade (numbered_frame 1 2 kVideoRotation_90 7) StartRenderer =
      Inr r'"
    using r(2) r0 by simp
  then have sz: "biSizeImage (bmi r') = 8"
    by (auto simp: OnFrame_def numbered_frame_def Rotate_def SetSize_def StartRenderer_def
        VideoRenderer_new_def Let_def split: option.splits)
  have px: "img ! (4 * (y * 2 + x) + k) =
      ucast (drop_bit (8 * k) (shade 8 x y))" if "x < 2" "y < 1" "k < 4" for x y k
    using p that unfolding w by (simp add: numbered_frame_def next_planes_def)
  have "img ! 4 = 33" "img ! 5 = 3"
    using px [of 1 0 0] px [of 1 0 1] by (simp_all add: shade_def)
  then have b: "\<exists>r' img. OnFrame next_planes shade (numbered_frame 1 2 kVideoRotation_90 7) StartRenderer = Inr r' \<and>
      biWidth (bmi r') = 2 \<and> - biHeight (bmi r') = 1 \<and>
      image r' = Some img \<and> length img = 8 \<and> img ! 4 = 33 \<and> img ! 5 = 3"
    using \<open>OnFrame next_planes shade (numbered_frame 1 2 kVideoRotation_90 7) StartRenderer = Inr r'\<close>
      w i sz by simp
  from a b show ?thesis by blast
qed

text \<open>
  A frame of width zero is not ignored: delivered to a new renderer it replaces the
  stored dimensions and makes the renderer allocate a buffer of length zero.
\<close>

theorem OnFrame_zero_frame_counterexample:
  "OnFrame keep_planes black (frame2 0 480 kVideoRotation_0) StartRenderer =
     Inr \<lparr> bmi = \<lparr> biSize = 40, biWidth = 0, biHeight = - 480, biPlanes = 1, biBitCount = 32,
                    biCompression = 0, biSizeImage = 0 \<rparr>,
           image = Some [], allocations = 1, invalidations = 1 \<rparr>"
  by (simp add: OnFrame_def frame2_def StartRenderer_def VideoRenderer_new_def SetSize_def
      Let_def new_uint8_t_def I420ToARGB_def)

text \<open>
  Claim C4, as amended. A frame whose width or height is zero is handled like any other:
  the call returns without a fault, the stored dimensions become the frame's dimensions
  after rotation, the declared size becomes 0 and the buffer is an array of length zero.
\<close>

theorem OnFrame_zero_frame_is_stored:
  assumes "list_all frame_ok fs" and "frame_ok f"
    and "width (video_frame_buffer f) = 0 \<or> height (video_frame_buffer f) = 0"
  shows "\<exists>r. OnFrames rot px (fs @ [f]) StartRenderer = Inr r \<and>
           biWidth (bmi r) = width (upright rot f) \<and>
           - biHeight (bmi r) = height (upright rot f) \<and>
           biSizeImage (bmi r) = 0 \<and> image r = Some []"
proof -
  obtain r' where r': "OnFrames rot px (fs @ [f]) StartRenderer = Inr r'" "renderer_inv r'"
      "image r' \<noteq> None" "biWidth (bmi r') = width (upright rot f)"
      "biHeight (bmi r') = - height (upright rot f)"
    using OnFrames_last [OF assms(1,2), of rot px] by auto
  have z: "width (upright rot f) = 0 \<or> height (upright rot f) = 0"
    using assms(3) by (auto simp: upright_def Rotate_def)
  have sz: "biSizeImage (bmi r') = 0"
    using r'(2,4,5) z by (auto simp: renderer_inv_def)
  then have "image r' = Some []"
    using r'(2,3) by (auto simp: renderer_inv_def)
  with r' sz show ?thesis by simp
qed

theorem OnFrame_zero_frame_is_stored_witness:
  "\<exists>r. OnFrames keep_planes black ([frame2 640 480 kVideoRotation_0] @ [frame2 0 480 kVideoRotation_0]) StartRenderer = Inr r \<and>
      biWidth (bmi r) = 0 \<and> - biHeight (bmi r) = 480 \<and> biSizeImage (bmi r) = 0 \<and> image r = Some []"
  using OnFrame_zero_frame_is_stored [of "[frame2 640 480 kVideoRotation_0]"
      "frame2 0 480 kVideoRotation_0" keep_planes black]
  by (simp add: frame_ok_def frame2_def upright_def)

section \<open>Properties of the main window\<close>

lemma nested_step_refl: "userdata w \<Longrightarrow> nested_step [] [] w w"
  by (simp add: nested_step_def same_view_def)

lemma nested_step_trans:
  "nested_step t1 m1 a b \<Longrightarrow> nested_step t2 m2 b c \<Longrightarrow> nested_step (t1 @ t2) (m1 @ m2) a c"
  by (auto simp: nested_step_def same_view_def)

lemma OnDefaultAction_events:
  "events (OnDefaultAction w) = events w @ events (OnDefaultAction (w \<lparr> events := [] \<rparr>))"
  by (simp add: OnDefaultAction_def emit_def Let_def)

lemma OnDefaultAction_keeps:
  "userdata (OnDefaultAction w) = userdata w"
  "nested_msg (OnDefaultAction w) = nested_msg w"
  "destroyed (OnDefaultAction w) = destroyed w"
  "same_view w (OnDefaultAction w)"
  "PostQuitMessage 0 \<notin> set (events (OnDefaultAction (w \<lparr> events := [] \<rparr>)))"
  by (simp_all add: OnDefaultAction_def emit_def Let_def same_view_def)

lemma OnDefaultAction_view:
  "same_view w w' \<Longrightarrow>
     events (OnDefaultAction (w' \<lparr> events := [] \<rparr>)) = events (OnDefaultAction (w \<lparr> events := [] \<rparr>))"
  by (simp add: OnDefaultAction_def emit_def Let_def same_view_def)

lemma OnMessage_events: "events (snd (OnMessage m w)) = events w @ handler_events m w"
  using OnDefaultAction_events [of w]
  by (simp add: handler_events_def OnMessage_def emit_def SetFocus_def LayoutConnectUI_def
      LayoutPeerListUI_def Let_def)

lemma OnMessage_keeps:
  "userdata (snd (OnMessage m w)) = userdata w"
  "nested_msg (snd (OnMessage m w)) = nested_msg w"
  "destroyed (snd (OnMessage m w)) = destroyed w"
  "same_view w (snd (OnMessage m w))"
  using OnDefaultAction_keeps [of w]
  by (simp_all add: OnMessage_def emit_def SetFocus_def LayoutConnectUI_def
      LayoutPeerListUI_def Let_def same_view_def)

lemma handler_events_no_quit: "PostQuitMessage 0 \<notin> set (handler_events m w)"
  using OnDefaultAction_keeps(5) [of w]
  by (simp add: handler_events_def OnMessage_def emit_def SetFocus_def LayoutConnectUI_def
      LayoutPeerListUI_def Let_def)

lemma handler_events_view: "same_view w w' \<Longrightarrow> handler_events m w' = handler_events m w"
  using OnDefaultAction_view [of w w']
  by (simp add: handler_events_def OnMessage_def emit_def SetFocus_def LayoutConnectUI_def
      LayoutPeerListUI_def Let_def same_view_def)

lemma OnMessage_fst: "fst (OnMessage m w') = fst (OnMessage m w)"
  by (simp add: OnMessage_def)

lemma WndProc_attached:
  assumes "userdata w"
  shows "WndProc (Dispatch m hs ds) w =
    (let w1 = emit (Routed (message m)) (w \<lparr> nested_msg := Some (message m) \<rparr>);
         w2 = WndProcs hs (snd (OnMessage m w1));
         w3 = (if WM_NCDESTROY = message m then w2 \<lparr> destroyed := True \<rparr>
               else if \<not> fst (OnMessage m w1) then WndProcs ds w2 else w2);
         w4 = (if destroyed w3 \<and> nested_msg w = None
               then (OnDestroyed w3) \<lparr> wnd := 0, destroyed := False \<rparr> else w3)
     in w4 \<lparr> nested_msg := nested_msg w \<rparr>)"
  using assms by (simp add: Let_def)

lemma same_view_trans: "same_view a b \<Longrightarrow> same_view b c \<Longrightarrow> same_view a c"
  by (simp add: same_view_def)

lemma WndProcs_nested_step:
  assumes "\<And>d w. d \<in> set ds \<Longrightarrow> userdata w \<Longrightarrow> nested_msg w \<noteq> None \<Longrightarrow> same_view w0 w \<Longrightarrow>
             nested_step (dispatch_events w0 d) (dispatched w0 d) w (WndProc d w)"
    and "userdata w" and "nested_msg w \<noteq> None" and "same_view w0 w"
  shows "nested_step (concat (map (dispatch_events w0) ds)) (concat (map (dispatched w0) ds))
           w (WndProcs ds w)"
  using assms
proof (induction ds arbitrary: w)
  case Nil
  then show ?case by (simp add: nested_step_refl)
next
  case (Cons d ds)
  have 1: "nested_step (dispatch_events w0 d) (dispatched w0 d) w (WndProc d w)"
    using Cons.prems by simp
  then have "userdata (WndProc d w)" "nested_msg (WndProc d w) \<noteq> None" "same_view w0 (WndProc d w)"
    using Cons.prems(3,4) by (auto simp: nested_step_def same_view_def)
  then have "nested_step (concat (map (dispatch_events w0) ds)) (concat (map (dispatched w0) ds))
               (WndProc d w) (WndProcs ds (WndProc d w))"
    using Cons.IH Cons.prems(1) by simp
  with 1 show ?case using nested_step_trans by fastforce
qed

lemma WndProc_body:
  fixes m :: MSG and w w0 :: DefaultMainWindow and hs ds :: "dispatch list"
  assumes ih_h: "\<And>d w. d \<in> set hs \<Longrightarrow> userdata w \<Longrightarrow> nested_msg w \<noteq> None \<Longrightarrow> same_view w0 w \<Longrightarrow>
             nested_step (dispatch_events w0 d) (dispatched w0 d) w (WndProc d w)"
    and ih_d: "\<And>d w. d \<in> set ds \<Longrightarrow> userdata w \<Longrightarrow> nested_msg w \<noteq> None \<Longrightarrow> same_view w0 w \<Longrightarrow>
             nested_step (dispatch_events w0 d) (dispatched w0 d) w (WndProc d w)"
    and u: "userdata w" and v: "same_view w0 w"
  defines "w1 \<equiv> emit (Routed (message m)) (w \<lparr> nested_msg := Some (message m) \<rparr>)"
  defines "w2 \<equiv> WndProcs hs (snd (OnMessage m w1))"
  defines "w3 \<equiv> (if WM_NCDESTROY = message m then w2 \<lparr> destroyed := True \<rparr>
                  else if \<not> fst (OnMessage m w1) then WndProcs ds w2 else w2)"
  shows "events w3 = events w @ dispatch_events w0 (Dispatch m hs ds)"
    and "destroyed w3 \<longleftrightarrow> destroyed w \<or> WM_NCDESTROY \<in> set (dispatched w0 (Dispatch m hs ds))"
    and "userdata w3" and "same_view w0 w3"
proof -
  let ?w1' = "snd (OnMessage m w1)"
  have v1: "same_view w0 w1" using v by (simp add: w1_def emit_def same_view_def)
  have e1: "events ?w1' = events w @ Routed (message m) # handler_events m w0"
    using handler_events_view [OF v1] by (simp add: OnMessage_events) (simp add: w1_def emit_def)
  have k1: "userdata ?w1'" "nested_msg ?w1' \<noteq> None" "destroyed ?w1' = destroyed w"
    "same_view w0 ?w1'"
    using u same_view_trans [OF v1 OnMessage_keeps(4) [of w1 m]]
    by (simp_all add: OnMessage_keeps) (simp_all add: w1_def emit_def)
  have s2: "nested_step (concat (map (dispatch_events w0) hs)) (concat (map (dispatched w0) hs))
              ?w1' w2"
    unfolding w2_def using ih_h k1 by (intro WndProcs_nested_step) simp_all
  have k2: "userdata w2" "nested_msg w2 \<noteq> None" "same_view w0 w2"
    using s2 k1 by (auto simp: nested_step_def same_view_def)
  have s3: "nested_step (concat (map (dispatch_events w0) ds)) (concat (map (dispatched w0) ds))
              w2 (WndProcs ds w2)"
    using ih_d k2 by (intro WndProcs_nested_step) simp_all
  have f: "fst (OnMessage m w1) = fst (OnMessage m w0)" by (rule OnMessage_fst)
  show "events w3 = events w @ dispatch_events w0 (Dispatch m hs ds)"
    using s2 s3 e1 f by (simp add: w3_def nested_step_def)
  show "destroyed w3 \<longleftrightarrow> destroyed w \<or> WM_NCDESTROY \<in> set (dispatched w0 (Dispatch m hs ds))"
    using s2 s3 k1(3) f by (auto simp: w3_def nested_step_def)
  show "userdata w3"
    using s2 s3 by (simp add: w3_def nested_step_def)
  show "same_view w0 w3"
    using s3 k2(3) by (auto simp: w3_def nested_step_def same_view_def)
qed

lemma WndProc_nested_step:
  "userdata w \<Longrightarrow> nested_msg w \<noteq> None \<Longrightarrow> same_view w0 w \<Longrightarrow>
     nested_step (dispatch_events w0 t) (dispatched w0 t) w (WndProc t w)"
proof (induction t arbitrary: w)
  case (Dispatch m hs ds)
  obtain y where y: "nested_msg w = Some y" using Dispatch.prems(2) by auto
  note b = WndProc_body [where m = m and w = w and ?w0.0 = w0 and hs = hs and ds = ds,
      OF Dispatch.IH(1) Dispatch.IH(2) Dispatch.prems(1,3)]
  define w3 where "w3 = (if WM_NCDESTROY = message m
      then (WndProcs hs (snd (OnMessage m (emit (Routed (message m)) (w \<lparr> nested_msg := Some (message m) \<rparr>)))))
             \<lparr> destroyed := True \<rparr>
      else if \<not> fst (OnMessage m (emit (Routed (message m)) (w \<lparr> nested_msg := Some (message m) \<rparr>)))
           then WndProcs ds (WndProcs hs (snd (OnMessage m (emit (Routed (message m)) (w \<lparr> nested_msg := Some (message m) \<rparr>)))))
           else WndProcs hs (snd (OnMessage m (emit (Routed (message m)) (w \<lparr> nested_msg := Some (message m) \<rparr>)))))"
  have w: "WndProc (Dispatch m hs ds) w = w3 \<lparr> nested_msg := nested_msg w \<rparr>"
    unfolding w3_def using Dispatch.prems(1) y by (simp add: WndProc_attached Let_def)
  have "events w3 = events w @ dispatch_events w0 (Dispatch m hs ds)"
    "destroyed w3 \<longleftrightarrow> destroyed w \<or> WM_NCDESTROY \<in> set (dispatched w0 (Dispatch m hs ds))"
    "userdata w3" "same_view w0 w3"
    unfolding w3_def using b by simp_all
  then show ?case
    unfolding w nested_step_def using Dispatch.prems(3) by (simp add: same_view_def)
qed

lemma dispatch_events_no_quit: "PostQuitMessage 0 \<notin> set (dispatch_events w t)"
  by (induction t) (auto simp: handler_events_no_quit)

lemma same_view_refl: "same_view w w"
  by (simp add: same_view_def)

text \<open>
  Claim C5. Take any dispatch to an attached window whose \<open>destroyed\<close> flag is clear,
  with any dispatches nested in it to any depth. The events it adds are those of the
  handlers and of the nested dispatches, none of them the quit message of
  \<open>OnDestroyed\<close>, and after all of them the quit message, once, exactly when
  \<^verbatim>\<open>WM_NCDESTROY\<close> is among the messages dispatched and the dispatch is the outermost
  one (\<open>nested_msg\<close> was null); the flag is then clear again. A nested dispatch in
  which \<^verbatim>\<open>WM_NCDESTROY\<close> was dispatched posts nothing and leaves the flag set for the
  outermost one. The window stays attached and \<open>nested_msg\<close> is restored, so the same
  holds of the next dispatch.
\<close>

theorem WndProc_destroyed_fires_once_at_outermost:
  assumes "userdata w" and "\<not> destroyed w"
  shows "events (WndProc t w) =
           events w @ dispatch_events w t @
             (if WM_NCDESTROY \<in> set (dispatched w t) \<and> nested_msg w = None
              then [PostQuitMessage 0] else []) \<and>
         PostQuitMessage 0 \<notin> set (dispatch_events w t) \<and>
         (destroyed (WndProc t w) \<longleftrightarrow> WM_NCDESTROY \<in> set (dispatched w t) \<and> nested_msg w \<noteq> None) \<and>
         nested_msg (WndProc t w) = nested_msg w \<and> userdata (WndProc t w)"
proof (cases "nested_msg w")
  case (Some y)
  then have "nested_step (dispatch_events w t) (dispatched w t) w (WndProc t w)"
    using assms(1) by (simp add: WndProc_nested_step same_view_refl)
  then show ?thesis
    using Some assms(2) by (simp add: nested_step_def dispatch_events_no_quit)
next
  case None
  obtain m hs ds where t: "t = Dispatch m hs ds" by (cases t)
  note b = WndProc_body [where m = m and w = w and ?w0.0 = w and hs = hs and ds = ds,
      OF _ _ assms(1) same_view_refl]
  define w3 where "w3 = (if WM_NCDESTROY = message m
      then (WndProcs hs (snd (OnMessage m (emit (Routed (message m)) (w \<lparr> nested_msg := Some (message m) \<rparr>)))))
             \<lparr> destroyed := True \<rparr>
      else if \<not> fst (OnMessage m (emit (Routed (message m)) (w \<lparr> nested_msg := Some (message m) \<rparr>)))
           then WndProcs ds (WndProcs hs (snd (OnMessage m (emit (Routed (message m)) (w \<lparr> nested_msg := Some (message m) \<rparr>)))))
           else WndProcs hs (snd (OnMessage m (emit (Routed (message m)) (w \<lparr> nested_msg := Some (message m) \<rparr>)))))"
  have 3: "events w3 = events w @ dispatch_events w t"
    "destroyed w3 \<longleftrightarrow> WM_NCDESTROY \<in> set (dispatched w t)"
    "userdata w3"
    unfolding w3_def t using b assms(2) by (simp_all add: WndProc_nested_step)
  have w: "WndProc t w =
      (if destroyed w3 then (OnDestroyed w3) \<lparr> wnd := 0, destroyed := False \<rparr> else w3)
      \<lparr> nested_msg := None \<rparr>"
    unfolding t w3_def using assms(1) None by (simp add: WndProc_attached Let_def)
  show ?thesis
    unfolding w using 3 None by (simp add: OnDestroyed_def emit_def dispatch_events_no_quit)
qed

theorem WndProc_destroyed_fires_once_at_outermost_witness:
  "userdata example_window \<and> \<not> destroyed example_window \<and>
   events (WndProc (Dispatch (msg0 WM_CLOSE)
                      [Dispatch (msg0 WM_NCDESTROY) [] [], Dispatch (msg0 WM_PAINT) [] []] [])
             example_window) =
     [Routed WM_CLOSE, Close, Routed WM_NCDESTROY, Routed WM_PAINT, Paint, PostQuitMessage 0]"
  using WndProc_destroyed_fires_once_at_outermost [of example_window
      "Dispatch (msg0 WM_CLOSE) [Dispatch (msg0 WM_NCDESTROY) [] [], Dispatch (msg0 WM_PAINT) [] []] []"]
  by (simp add: example_window_def msg0_def handler_events_def OnMessage_def emit_def
      OnDestroyed_def Let_def
      WM_CLOSE_def WM_NCDESTROY_def WM_CREATE_def WM_ERASEBKGND_def WM_PAINT_def WM_SETFOCUS_def
      WM_SIZE_def WM_CTLCOLORSTATIC_def WM_COMMAND_def)

lemma AddListBoxItem_appends:
  "AddListBoxItem str d lb = lb \<lparr> entries := entries lb @ [(c_str str, d)] \<rparr>"
  by (simp add: AddListBoxItem_def LB_ADDSTRING_def LB_SETITEMDATA_def)

lemma fold_AddListBoxItem:
  "fold (\<lambda>i l. AddListBoxItem (snd i) (fst i) l) peers lb =
     lb \<lparr> entries := entries lb @ map (\<lambda>i. (c_str (snd i), fst i)) peers \<rparr>"
  by (induction peers arbitrary: lb) (simp_all add: AddListBoxItem_appends)

lemma c_str_header:
  "c_str ''List of currently connected peers:'' = ''List of currently connected peers:''"
  by (simp add: c_str_def)

lemma SwitchToPeerList_listbox:
  "listbox_content (SwitchToPeerList peers w) =
     \<lparr> entries = peer_list peers,
       cursel = (if auto_call w \<and> peers \<noteq> [] then int (length peers) else - 1) \<rparr>"
  by (simp add: SwitchToPeerList_def Let_def fold_AddListBoxItem
      AddListBoxItem_appends [of "''List of currently connected peers:''"]
      c_str_header LB_RESETCONTENT_def LayoutConnectUI_def LayoutPeerListUI_def SetFocus_def
      LB_GETCOUNT_def LB_SETCURSEL_def LB_ERR_def emit_def peer_list_def)

lemma SwitchToPeerList_fields:
  "auto_call (SwitchToPeerList peers w) = auto_call w"
  "ui (SwitchToPeerList peers w) = LIST_PEERS"
  "callback (SwitchToPeerList peers w) = callback w"
  "listbox (SwitchToPeerList peers w) = listbox w"
  "label1 (SwitchToPeerList peers w) = label1 w"
  "label2 (SwitchToPeerList peers w) = label2 w"
  "edit1 (SwitchToPeerList peers w) = edit1 w"
  "edit2 (SwitchToPeerList peers w) = edit2 w"
  "button (SwitchToPeerList peers w) = button w"
  "focus (SwitchToPeerList peers w) = listbox w"
  "shown (SwitchToPeerList peers w) =
     insert (listbox w) (shown w - {label1 w, edit1 w, label2 w, edit2 w, button w})"
  by (simp_all add: SwitchToPeerList_def Let_def LayoutConnectUI_def LayoutPeerListUI_def
      SetFocus_def emit_def split: prod.splits)

text \<open>
  Claim C8. \<open>SwitchToPeerList\<close> builds the list from nothing: the header row, then one
  row per peer in the order of the iteration, each with the peer's identifier as item
  data. A second call with the same peers leaves the same list, the same selection, the
  same controls shown, the same state and the same focus.
\<close>

theorem SwitchToPeerList_twice_same_list:
  "entries (listbox_content (SwitchToPeerList peers w)) =
     (''List of currently connected peers:'', - 1) # map (\<lambda>i. (c_str (snd i), fst i)) peers \<and>
   listbox_content (SwitchToPeerList peers (SwitchToPeerList peers w)) =
     listbox_content (SwitchToPeerList peers w) \<and>
   shown (SwitchToPeerList peers (SwitchToPeerList peers w)) = shown (SwitchToPeerList peers w) \<and>
   ui (SwitchToPeerList peers (SwitchToPeerList peers w)) = ui (SwitchToPeerList peers w) \<and>
   focus (SwitchToPeerList peers (SwitchToPeerList peers w)) = focus (SwitchToPeerList peers w)"
proof -
  have "shown (SwitchToPeerList peers (SwitchToPeerList peers w)) = shown (SwitchToPeerList peers w)"
    unfolding SwitchToPeerList_fields by blast
  then show ?thesis
    by (simp add: SwitchToPeerList_listbox SwitchToPeerList_fields peer_list_def)
qed

theorem SwitchToPeerList_twice_same_list_witness:
  "entries (listbox_content
      (SwitchToPeerList [(1, ''alice''), (2, ''bob'')]
        (SwitchToPeerList [(1, ''alice''), (2, ''bob'')] example_window))) =
     [(''List of currently connected peers:'', - 1), (''alice'', 1), (''bob'', 2)]"
  using SwitchToPeerList_twice_same_list [of "[(1, ''alice''), (2, ''bob'')]" example_window]
  by (simp add: c_str_def)

text \<open>
  Claim C10. In the peer list state the default action calls \<open>ConnectToPeer\<close> in one
  case only: an observer is registered, a row is selected and the item data of that row
  is not \<open>-1\<close>; the call then carries that item data. With the header row selected,
  after \<open>SwitchToPeerList\<close> with any peers, the default action calls nothing.
\<close>

theorem OnDefaultAction_connects_only_to_peers:
  assumes "ui w = LIST_PEERS"
  shows "events (OnDefaultAction w) =
           (if callback w \<noteq> None \<and> LB_GETCURSEL (listbox_content w) \<noteq> LB_ERR \<and>
               LB_GETITEMDATA (LB_GETCURSEL (listbox_content w)) (listbox_content w) \<noteq> - 1
            then events w @
                 [ConnectToPeer (LB_GETITEMDATA (LB_GETCURSEL (listbox_content w)) (listbox_content w))]
            else events w) \<and>
         events (OnDefaultAction (select_row 0 (SwitchToPeerList peers w0))) =
           events (select_row 0 (SwitchToPeerList peers w0))"
proof -
  have 1: "events (OnDefaultAction w) =
           (if callback w \<noteq> None \<and> LB_GETCURSEL (listbox_content w) \<noteq> LB_ERR \<and>
               LB_GETITEMDATA (LB_GETCURSEL (listbox_content w)) (listbox_content w) \<noteq> - 1
            then events w @
                 [ConnectToPeer (LB_GETITEMDATA (LB_GETCURSEL (listbox_content w)) (listbox_content w))]
            else events w)"
    using assms by (simp add: OnDefaultAction_def Let_def emit_def)
  have 2: "events (OnDefaultAction (select_row 0 (SwitchToPeerList peers w0))) =
           events (select_row 0 (SwitchToPeerList peers w0))"
    by (simp add: OnDefaultAction_def Let_def emit_def select_row_def SwitchToPeerList_fields
        SwitchToPeerList_listbox peer_list_def LB_SETCURSEL_def LB_GETCURSEL_def
        LB_GETITEMDATA_def LB_ERR_def)
  from 1 2 show ?thesis by blast
qed

theorem OnDefaultAction_connects_only_to_peers_witness:
  "ui (select_row 1 (SwitchToPeerList [(7, ''alice'')] example_window)) = LIST_PEERS \<and>
   events (OnDefaultAction (select_row 1 (SwitchToPeerList [(7, ''alice'')] example_window))) =
     events (select_row 1 (SwitchToPeerList [(7, ''alice'')] example_window)) @ [ConnectToPeer 7] \<and>
   events (OnDefaultAction (select_row 0 (SwitchToPeerList [(7, ''alice'')] example_window))) =
     events (select_row 0 (SwitchToPeerList [(7, ''alice'')] example_window))"
  using OnDefaultAction_connects_only_to_peers
    [of "select_row 1 (SwitchToPeerList [(7, ''alice'')] example_window)" "[(7, ''alice'')]"
        example_window]
  by (simp add: select_row_def SwitchToPeerList_fields SwitchToPeerList_listbox peer_list_def
      LB_SETCURSEL_def LB_GETCURSEL_def LB_GETITEMDATA_def LB_ERR_def example_window_def)

text \<open>
  Claim C6, which the code does not meet. The key strokes, the default action and
  \<^verbatim>\<open>WM_CLOSE\<close> test the observer before they call it (lemma
  \<open>guarded_paths_skip_without_observer\<close> below). The queued thread callback does not:
  with no observer registered, \<open>PreTranslateMessage\<close> on a \<^verbatim>\<open>UI_THREAD_CALLBACK\<close>
  thread message calls through the null pointer.
\<close>

theorem PreTranslateMessage_thread_callback_without_observer:
  assumes "callback w = None" and "hwnd msg = 0" and "message msg = UI_THREAD_CALLBACK"
  shows "PreTranslateMessage msg w = Some (Inl NullDereference)"
  using assms
  by (simp add: PreTranslateMessage_def UI_THREAD_CALLBACK_def WM_APP_def WM_CHAR_def)

theorem PreTranslateMessage_thread_callback_without_observer_witness:
  "callback (example_window \<lparr> callback := None \<rparr>) = None \<and>
   PreTranslateMessage \<lparr> hwnd = 0, message = UI_THREAD_CALLBACK, wParam = 0, lParam = 0 \<rparr>
     (example_window \<lparr> callback := None \<rparr>) = Some (Inl NullDereference)"
  using PreTranslateMessage_thread_callback_without_observer
    [of "example_window \<lparr> callback := None \<rparr>"
        "\<lparr> hwnd = 0, message = UI_THREAD_CALLBACK, wParam = 0, lParam = 0 \<rparr>"]
  by simp

lemma guarded_paths_skip_without_observer:
  assumes "callback w = None"
  shows "OnDefaultAction w = w"
    and "PreTranslateMessage \<lparr> hwnd = h, message = WM_CHAR, wParam = VK_RETURN, lParam = l \<rparr> w = Some (Inr (True, w))"
    and "PreTranslateMessage \<lparr> hwnd = h, message = WM_CHAR, wParam = VK_ESCAPE, lParam = l \<rparr> w = Some (Inr (False, w))"
    and "OnMessage \<lparr> hwnd = h, message = WM_CLOSE, wParam = p, lParam = l \<rparr> w = (False, w)"
  using assms
  by (simp_all add: OnDefaultAction_def PreTranslateMessage_def OnMessage_def VK_RETURN_def
      VK_TAB_def VK_ESCAPE_def WM_CLOSE_def WM_ERASEBKGND_def WM_PAINT_def WM_SETFOCUS_def
      WM_SIZE_def WM_CTLCOLORSTATIC_def WM_COMMAND_def)

section \<open>Properties of the service removal\<close>

lemma poll_stop_exits:
  assumes "\<forall>i<k. q (n + i) = Some SERVICE_STOP_PENDING"
    and "q (n + k) \<noteq> Some SERVICE_STOP_PENDING"
  shows "\<exists>st. poll_stop q n st0 calls =
           Some (st, calls @ concat (replicate k [QueryServiceStatus, Wprintf ''.'', Sleep 1000]) @
                     [QueryServiceStatus])"
  using assms
proof (induction k arbitrary: n st0 calls)
  case 0
  then show ?case
    by (subst poll_stop.simps) (auto split: option.splits)
next
  case (Suc k)
  have h: "q n = Some SERVICE_STOP_PENDING" using Suc.prems(1) by force
  have "\<forall>i<k. q (Suc n + i) = Some SERVICE_STOP_PENDING"
    using Suc.prems(1) by (metis add_Suc_shift Suc_less_eq)
  moreover have "q (Suc n + k) \<noteq> Some SERVICE_STOP_PENDING"
    using Suc.prems(2) by simp
  ultimately obtain st where
    "poll_stop q (Suc n) SERVICE_STOP_PENDING (calls @ [QueryServiceStatus, Wprintf ''.'', Sleep 1000]) =
       Some (st, (calls @ [QueryServiceStatus, Wprintf ''.'', Sleep 1000]) @
                 concat (replicate k [QueryServiceStatus, Wprintf ''.'', Sleep 1000]) @
                 [QueryServiceStatus])"
    using Suc.IH by blast
  then show ?case
    using h by (subst poll_stop.simps) simp
qed

lemma poll_stop_never_ends:
  assumes "poll_stop q n st calls = Some y"
  shows "\<exists>i. q i \<noteq> Some SERVICE_STOP_PENDING"
proof (rule poll_stop.raw_induct
    [where P = "\<lambda>q n st calls y. \<exists>i. q i \<noteq> Some SERVICE_STOP_PENDING", OF _ assms])
  fix poll :: "(nat \<Rightarrow> DWORD option) \<Rightarrow> nat \<Rightarrow> DWORD \<Rightarrow> scm_call list \<Rightarrow> (DWORD \<times> scm_call list) option"
    and q n st calls y
  assume ih: "\<And>q n st calls y. poll q n st calls = Some y \<Longrightarrow> \<exists>i. q i \<noteq> Some SERVICE_STOP_PENDING"
    and body: "(case q n of
        None \<Rightarrow> Some (st, calls @ [QueryServiceStatus])
      | Some st' \<Rightarrow>
          if st' = SERVICE_STOP_PENDING
          then poll q (Suc n) st' (calls @ [QueryServiceStatus, Wprintf ''.'', Sleep 1000])
          else Some (st', calls @ [QueryServiceStatus])) = Some y"
  show "\<exists>i. q i \<noteq> Some SERVICE_STOP_PENDING"
  proof (cases "q n = Some SERVICE_STOP_PENDING")
    case True
    then show ?thesis using ih body by simp
  next
    case False
    then show ?thesis by blast
  qed
qed

lemma RemoveService_unfold_accepted:
  assumes "open_manager_ok e" and "open_service_ok e" and "control_stop e = Some st"
    and "poll_stop (query_status e) 0 st
           [OpenSCManager, OpenService, ControlService, Wprintf ''Stopping %s.'', Sleep 1000] =
         Some (st', calls)"
  shows "RemoveService e =
           Some (delete_ok e,
                 calls @ [DeleteService] @
                 (if delete_ok e then []
                  else [CloseServiceHandle schSCManager, CloseServiceHandle schService]))"
  using assms by (simp add: RemoveService_def)

text \<open>
  Claim C7, as amended. When both handles open: if the stop control is refused, the
  delete follows at once; if it is accepted, the function sleeps one second and queries
  the status, sleeping one second after each answer "stop pending", until a query fails
  or reports another state, and then issues the delete; in both cases it returns, and
  what it returns is the result of the delete. If the stop control is accepted and every
  query answers "stop pending", the function does not return.
\<close>

theorem RemoveService_result_is_delete_result:
  assumes "open_manager_ok e" and "open_service_ok e"
  shows "(control_stop e = None \<longrightarrow>
            RemoveService e =
              Some (delete_ok e,
                    [OpenSCManager, OpenService, ControlService, DeleteService] @
                    (if delete_ok e then []
                     else [CloseServiceHandle schSCManager, CloseServiceHandle schService]))) \<and>
         (control_stop e \<noteq> None \<and>
          (\<forall>i<n. query_status e i = Some SERVICE_STOP_PENDING) \<and>
          query_status e n \<noteq> Some SERVICE_STOP_PENDING \<longrightarrow>
            RemoveService e = Some (delete_ok e, calls_with_polls n (delete_ok e))) \<and>
         (control_stop e \<noteq> None \<and> (\<forall>i. query_status e i = Some SERVICE_STOP_PENDING) \<longrightarrow>
            RemoveService e = None)"
proof (intro conjI impI)
  assume "control_stop e = None"
  then show "RemoveService e =
      Some (delete_ok e,
            [OpenSCManager, OpenService, ControlService, DeleteService] @
            (if delete_ok e then []
             else [CloseServiceHandle schSCManager, CloseServiceHandle schService]))"
    using assms by (simp add: RemoveService_def)
next
  assume a: "control_stop e \<noteq> None \<and>
      (\<forall>i<n. query_status e i = Some SERVICE_STOP_PENDING) \<and>
      query_status e n \<noteq> Some SERVICE_STOP_PENDING"
  then obtain st where st: "control_stop e = Some st" by auto
  let ?c0 = "[OpenSCManager, OpenService, ControlService, Wprintf ''Stopping %s.'', Sleep 1000]"
  obtain st' where
    "poll_stop (query_status e) 0 st ?c0 =
       Some (st', ?c0 @ concat (replicate n [QueryServiceStatus, Wprintf ''.'', Sleep 1000]) @
                  [QueryServiceStatus])"
    using poll_stop_exits [of n "query_status e" 0 st ?c0] a by auto
  then show "RemoveService e = Some (delete_ok e, calls_with_polls n (delete_ok e))"
    using RemoveService_unfold_accepted [OF assms st] by (simp add: calls_with_polls_def)
next
  assume a: "control_stop e \<noteq> None \<and> (\<forall>i. query_status e i = Some SERVICE_STOP_PENDING)"
  then obtain st where st: "control_stop e = Some st" by auto
  let ?c0 = "[OpenSCManager, OpenService, ControlService, Wprintf ''Stopping %s.'', Sleep 1000]"
  have "poll_stop (query_status e) 0 st ?c0 = None"
  proof (cases "poll_stop (query_status e) 0 st ?c0")
    case None
    then show ?thesis .
  next
    case (Some y)
    then show ?thesis using poll_stop_never_ends [OF Some] a by blast
  qed
  then show "RemoveService e = None"
    using assms st by (simp add: RemoveService_def)
qed

theorem RemoveService_result_is_delete_result_witness:
  "open_manager_ok (pending_then 2 (Some SERVICE_STOPPED) True) \<and>
   open_service_ok (pending_then 2 (Some SERVICE_STOPPED) True) \<and>
   RemoveService (pending_then 2 (Some SERVICE_STOPPED) True) =
     Some (True,
           [OpenSCManager, OpenService, ControlService, Wprintf ''Stopping %s.'', Sleep 1000,
            QueryServiceStatus, Wprintf ''.'', Sleep 1000,
            QueryServiceStatus, Wprintf ''.'', Sleep 1000,
            QueryServiceStatus, DeleteService])"
  using RemoveService_result_is_delete_result [of "pending_then 2 (Some SERVICE_STOPPED) True" 2]
  by (simp add: pending_then_def calls_with_polls_def SERVICE_STOPPED_def SERVICE_STOP_PENDING_def
      numeral_2_eq_2)

text \<open>
  The polling also ends when a query fails: here the stop control reports "stop
  pending", the first query fails, and the delete is issued after that single query
  although no query ever reported another state.
\<close>

theorem RemoveService_stops_polling_on_failed_query_counterexample:
  "control_stop (pending_then 0 None True) = Some SERVICE_STOP_PENDING \<and>
   query_status (pending_then 0 None True) 0 = None \<and>
   RemoveService (pending_then 0 None True) =
     Some (True, [OpenSCManager, OpenService, ControlService, Wprintf ''Stopping %s.'', Sleep 1000,
                  QueryServiceStatus, DeleteService])"
  by (simp add: pending_then_def RemoveService_def poll_stop.simps)

end
